theory Spec2Isabelle
  imports Complex_Main
begin

section \<open>JavaScript values used by the components\<close>

subsection \<open>Strings\<close>

text \<open>
  A JavaScript string is a sequence of UTF-16 code units. A code unit is modelled as a
  natural number (below 65536 for every real string); no arithmetic is done on code units,
  only comparisons, so nothing wraps around.
\<close>

type_synonym jsstring = "nat list"

text \<open>Writing a string made of Latin-1 characters as an Isabelle literal.\<close>

definition js :: "string \<Rightarrow> jsstring" where
  "js s = map of_char s"

text \<open>
  The relational operators of JavaScript on two strings: \<open>a < b\<close> compares code unit by
  code unit, a proper prefix being smaller. \<open>a <= b\<close> is \<open>!(b < a)\<close>, \<open>a > b\<close> is
  \<open>b < a\<close>, \<open>a >= b\<close> is \<open>!(a < b)\<close>.
\<close>

fun js_lt :: "jsstring \<Rightarrow> jsstring \<Rightarrow> bool" where
  "js_lt [] [] = False"
| "js_lt [] (y # ys) = True"
| "js_lt (x # xs) [] = False"
| "js_lt (x # xs) (y # ys) = (if x = y then js_lt xs ys else x < y)"

definition js_gt :: "jsstring \<Rightarrow> jsstring \<Rightarrow> bool" where
  "js_gt a b = js_lt b a"

definition js_le :: "jsstring \<Rightarrow> jsstring \<Rightarrow> bool" where
  "js_le a b = (\<not> js_lt b a)"

definition js_ge :: "jsstring \<Rightarrow> jsstring \<Rightarrow> bool" where
  "js_ge a b = (\<not> js_lt a b)"

text \<open>\<open>s.split(sep)\<close> for a one-character separator: \<open>"".split(":")\<close> is \<open>[""]\<close>.\<close>

fun split :: "nat \<Rightarrow> jsstring \<Rightarrow> jsstring list" where
  "split sep [] = [[]]"
| "split sep (c # cs) =
     (if c = sep then [] # split sep cs
      else (case split sep cs of
              [] \<Rightarrow> [[c]]
            | p # ps \<Rightarrow> (c # p) # ps))"

subsection \<open>Numbers\<close>

text \<open>
  \<open>Number(s)\<close> on the strings of at most 14 unsigned decimal digits (the empty string
  gives 0). The result \<open>None\<close> marks an argument outside this fragment of the
  StringToNumber grammar (white space, signs, fractions, exponents, hexadecimal,
  \<open>Infinity\<close>, longer digit strings, and the strings converted to NaN): nothing is
  claimed about such arguments. Inside the fragment every \<open>hours * 60 + minutes\<close> and
  every difference of two of them stays below \<open>2^53\<close> in absolute value, so the integer
  arithmetic of the source is exact in IEEE doubles.
\<close>

definition is_digit :: "nat \<Rightarrow> bool" where
  "is_digit c = (48 \<le> c \<and> c \<le> 57)"

definition digits_value :: "jsstring \<Rightarrow> nat" where
  "digits_value s = foldl (\<lambda>a c. 10 * a + (c - 48)) 0 s"

definition Number :: "jsstring \<Rightarrow> nat option" where
  "Number s =
     (if list_all is_digit s \<and> length s \<le> 14 then Some (digits_value s) else None)"

text \<open>
  The results of the division and of the multiplication by 100 are IEEE doubles in the
  source. They are modelled as exact rationals extended by NaN and the two infinities,
  which is what a division by zero returns; rounding is not modelled. Zero carries no
  sign: every zero divisor that occurs is a difference \<open>x - x\<close> of integers, which is
  \<open>+0\<close>.
\<close>

datatype jsnum = NaN | NegInf | Fin rat | PosInf

fun js_divide :: "jsnum \<Rightarrow> jsnum \<Rightarrow> jsnum" where
  "js_divide NaN _ = NaN"
| "js_divide _ NaN = NaN"
| "js_divide (Fin a) (Fin b) =
     (if b = 0 then (if a = 0 then NaN else if 0 < a then PosInf else NegInf)
      else Fin (a / b))"
| "js_divide (Fin a) _ = Fin 0"
| "js_divide PosInf (Fin b) = (if b < 0 then NegInf else PosInf)"
| "js_divide NegInf (Fin b) = (if b < 0 then PosInf else NegInf)"
| "js_divide _ _ = NaN"

fun js_times :: "jsnum \<Rightarrow> jsnum \<Rightarrow> jsnum" where
  "js_times NaN _ = NaN"
| "js_times _ NaN = NaN"
| "js_times (Fin a) (Fin b) = Fin (a * b)"
| "js_times (Fin a) PosInf = (if a = 0 then NaN else if 0 < a then PosInf else NegInf)"
| "js_times (Fin a) NegInf = (if a = 0 then NaN else if 0 < a then NegInf else PosInf)"
| "js_times PosInf (Fin b) = (if b = 0 then NaN else if 0 < b then PosInf else NegInf)"
| "js_times NegInf (Fin b) = (if b = 0 then NaN else if 0 < b then NegInf else PosInf)"
| "js_times PosInf PosInf = PosInf"
| "js_times NegInf NegInf = PosInf"
| "js_times PosInf NegInf = NegInf"
| "js_times NegInf PosInf = NegInf"

text \<open>\<open>a < b\<close> on numbers: false as soon as one side is NaN.\<close>

fun js_less :: "jsnum \<Rightarrow> jsnum \<Rightarrow> bool" where
  "js_less NaN _ = False"
| "js_less _ NaN = False"
| "js_less (Fin a) (Fin b) = (a < b)"
| "js_less NegInf NegInf = False"
| "js_less NegInf _ = True"
| "js_less _ NegInf = False"
| "js_less PosInf _ = False"
| "js_less _ PosInf = True"

text \<open>\<open>Math.max(a, b)\<close>: NaN as soon as one argument is NaN.\<close>

fun Math_max :: "jsnum \<Rightarrow> jsnum \<Rightarrow> jsnum" where
  "Math_max NaN _ = NaN"
| "Math_max _ NaN = NaN"
| "Math_max a b = (if js_less a b then b else a)"

section \<open>TimeTable.tsx\<close>

text \<open>
  \<open>const [hours, minutes] = time.split(":").map(Number)\<close>: the first two parts, as
  numbers; further parts (the seconds) are converted and dropped. \<open>None\<close> when there are
  fewer than two parts (the source computes with \<open>undefined\<close> then) or one of the two is
  outside the fragment of \<open>Number\<close>.
\<close>

definition hoursMinutes :: "jsstring \<Rightarrow> (nat \<times> nat) option" where
  "hoursMinutes time =
     (case map Number (split 58 time) of
        Some hours # Some minutes # _ \<Rightarrow> Some (hours, minutes)
      | _ \<Rightarrow> None)"

definition isTimeInRange :: "jsstring \<Rightarrow> jsstring \<Rightarrow> jsstring \<Rightarrow> bool option" where
  "isTimeInRange time startTime endTime =
     (case (hoursMinutes time, hoursMinutes startTime, hoursMinutes endTime) of
        (Some (hours, minutes), Some (startHour, startMin), Some (endHour, endMin)) \<Rightarrow>
          (let timeInMinutes = hours * 60 + minutes;
               startInMinutes = startHour * 60 + startMin;
               endInMinutes = endHour * 60 + endMin
           in Some (timeInMinutes \<ge> startInMinutes \<and> timeInMinutes \<le> endInMinutes))
      | _ \<Rightarrow> None)"

definition timeToPosition :: "jsstring \<Rightarrow> jsstring \<Rightarrow> jsstring \<Rightarrow> jsnum option" where
  "timeToPosition time startTime endTime =
     (case (hoursMinutes time, hoursMinutes startTime, hoursMinutes endTime) of
        (Some (hour, minute), Some (startHour, startMin), Some (endHour, endMin)) \<Rightarrow>
          (let totalMinutes = int (hour * 60 + minute);
               startOfDay = int (startHour * 60 + startMin);
               endOfDay = int (endHour * 60 + endMin);
               totalDayMinutes = endOfDay - startOfDay;
               minutesSinceStartOfDay = totalMinutes - startOfDay
           in Some (js_times
                      (js_divide (Fin (of_int minutesSinceStartOfDay))
                                 (Fin (of_int totalDayMinutes)))
                      (Fin 100)))
      | _ \<Rightarrow> None)"

definition calculateHeight ::
  "jsstring \<Rightarrow> jsstring \<Rightarrow> jsstring \<Rightarrow> jsstring \<Rightarrow> jsnum option" where
  "calculateHeight startTime endTime dayStartTime dayEndTime =
     (case (hoursMinutes startTime, hoursMinutes endTime,
            hoursMinutes dayStartTime, hoursMinutes dayEndTime) of
        (Some (startHour, startMinute), Some (endHour, endMinute),
         Some (dayStartHour, dayStartMin), Some (dayEndHour, dayEndMin)) \<Rightarrow>
          (let startInMinutes = int (startHour * 60 + startMinute);
               endInMinutes = int (endHour * 60 + endMinute);
               durationInMinutes = endInMinutes - startInMinutes;
               totalDayMinutes =
                 int (dayEndHour * 60 + dayEndMin) - int (dayStartHour * 60 + dayStartMin)
           in Some (js_times
                      (js_divide (Fin (of_int durationInMinutes))
                                 (Fin (of_int totalDayMinutes)))
                      (Fin 100)))
      | _ \<Rightarrow> None)"

text \<open>
  The interface \<open>Schedule\<close>. Its field \<open>id\<close> is \<open>eid\<close> here; the record comes
  after the three functions above because their parameters are named \<open>startTime\<close> and
  \<open>endTime\<close> too.
\<close>

record Schedule =
  eid :: int
  day :: jsstring
  startTime :: jsstring
  endTime :: jsstring
  courseName :: jsstring
  classroomName :: jsstring
  color :: "jsstring option"
  description :: "jsstring option"

text \<open>
  The component's closures. \<open>startTime\<close> and \<open>endTime\<close> of the props (the visible
  window) are the parameters \<open>windowStart\<close> and \<open>windowEnd\<close>.
\<close>

definition findOverlappingEvents :: "Schedule \<Rightarrow> Schedule list \<Rightarrow> Schedule list" where
  "findOverlappingEvents currentEvent dayEvents =
     filter (\<lambda>event.
        eid event \<noteq> eid currentEvent \<and>
        ((js_ge (startTime event) (startTime currentEvent) \<and>
          js_lt (startTime event) (endTime currentEvent)) \<or>
         (js_gt (endTime event) (startTime currentEvent) \<and>
          js_le (endTime event) (endTime currentEvent)) \<or>
         (js_le (startTime event) (startTime currentEvent) \<and>
          js_ge (endTime event) (endTime currentEvent)))) dayEvents"

text \<open>\<open>a && b\<close> evaluates \<open>b\<close> only when \<open>a\<close> is true.\<close>

definition isEventVisible :: "jsstring \<Rightarrow> jsstring \<Rightarrow> Schedule \<Rightarrow> bool option" where
  "isEventVisible windowStart windowEnd event =
     (case isTimeInRange (startTime event) windowStart windowEnd of
        None \<Rightarrow> None
      | Some False \<Rightarrow> Some False
      | Some True \<Rightarrow> isTimeInRange (endTime event) windowStart windowEnd)"

text \<open>\<open>dayEvents.filter(isEventVisible)\<close>.\<close>

fun visibleEvents :: "jsstring \<Rightarrow> jsstring \<Rightarrow> Schedule list \<Rightarrow> Schedule list option" where
  "visibleEvents windowStart windowEnd [] = Some []"
| "visibleEvents windowStart windowEnd (event # events) =
     (case isEventVisible windowStart windowEnd event of
        None \<Rightarrow> None
      | Some keep \<Rightarrow>
          (case visibleEvents windowStart windowEnd events of
             None \<Rightarrow> None
           | Some rest \<Rightarrow> Some (if keep then event # rest else rest)))"

text \<open>
  What the grid computes for one event of a day column: the \<open>top\<close> and \<open>height\<close> of its
  style (the numbers in front of the \<open>%\<close>) and the overlap list.
\<close>

record EventBox =
  box_event :: Schedule
  box_top :: jsnum
  box_height :: jsnum
  box_overlapping :: "Schedule list"

definition eventBox ::
  "bool \<Rightarrow> jsstring \<Rightarrow> jsstring \<Rightarrow> Schedule list \<Rightarrow> Schedule \<Rightarrow> EventBox option" where
  "eventBox compactMode windowStart windowEnd visible event =
     (case (timeToPosition (startTime event) windowStart windowEnd,
            calculateHeight (startTime event) (endTime event) windowStart windowEnd) of
        (Some topPercent, Some height) \<Rightarrow>
          Some \<lparr> box_event = event,
                 box_top = topPercent,
                 box_height = Math_max height (if compactMode then Fin 8 else Fin 10),
                 box_overlapping = findOverlappingEvents event visible \<rparr>
      | _ \<Rightarrow> None)"

fun those_boxes :: "EventBox option list \<Rightarrow> EventBox list option" where
  "those_boxes [] = Some []"
| "those_boxes (None # _) = None"
| "those_boxes (Some b # bs) =
     (case those_boxes bs of None \<Rightarrow> None | Some rest \<Rightarrow> Some (b # rest))"

text \<open>
  One day column: \<open>dayEvents.filter(isEventVisible).map(event => ...)\<close>. The events of
  the day, \<open>dayEvents\<close>, are those of \<open>scheduleData\<close> whose \<open>day\<close> starts with the day's
  name, both in upper case; that selection is taken as given.
\<close>

definition renderDay ::
  "bool \<Rightarrow> jsstring \<Rightarrow> jsstring \<Rightarrow> Schedule list \<Rightarrow> EventBox list option" where
  "renderDay compactMode windowStart windowEnd dayEvents =
     (case visibleEvents windowStart windowEnd dayEvents of
        None \<Rightarrow> None
      | Some visible \<Rightarrow>
          those_boxes (map (eventBox compactMode windowStart windowEnd visible) visible))"

text \<open>
  The minute value that all four functions compute for a time, \<open>hours * 60 + minutes\<close>.
\<close>

definition minutesOf :: "jsstring \<Rightarrow> nat option" where
  "minutesOf time =
     (case hoursMinutes time of Some (hours, minutes) \<Rightarrow> Some (hours * 60 + minutes) | None \<Rightarrow> None)"

subsection \<open>Well-formed times\<close>

text \<open>
  The format \<open>HH:MM\<close> or \<open>HH:MM:SS\<close>: two decimal digits per field, the minutes below
  60. \<open>minutesSinceMidnight\<close> is the minute value of such a string, read off its digits.
\<close>

definition digit :: "nat \<Rightarrow> nat" where
  "digit c = c - 48"

definition hhmm :: "jsstring \<Rightarrow> bool" where
  "hhmm s = (case s of
       [h1, h2, c, m1, m2] \<Rightarrow>
         is_digit h1 \<and> is_digit h2 \<and> c = 58 \<and> is_digit m1 \<and> is_digit m2 \<and>
         10 * digit m1 + digit m2 < 60
     | _ \<Rightarrow> False)"

definition wellFormedTime :: "jsstring \<Rightarrow> bool" where
  "wellFormedTime s =
     (hhmm s \<or>
      (case drop 5 s of
         [c, s1, s2] \<Rightarrow> hhmm (take 5 s) \<and> c = 58 \<and> is_digit s1 \<and> is_digit s2
       | _ \<Rightarrow> False))"

definition minutesSinceMidnight :: "jsstring \<Rightarrow> nat" where
  "minutesSinceMidnight s =
     (10 * digit (s ! 0) + digit (s ! 1)) * 60 + (10 * digit (s ! 3) + digit (s ! 4))"

definition inWindow :: "jsstring \<Rightarrow> jsstring \<Rightarrow> jsstring \<Rightarrow> bool" where
  "inWindow windowStart windowEnd time =
     (minutesSinceMidnight windowStart \<le> minutesSinceMidnight time \<and>
      minutesSinceMidnight time \<le> minutesSinceMidnight windowEnd)"

definition wellFormedEvent :: "Schedule \<Rightarrow> bool" where
  "wellFormedEvent ev = (wellFormedTime (startTime ev) \<and> wellFormedTime (endTime ev))"

text \<open>
  Both times of the event are well-formed and carry the seconds part \<open>secs\<close> (the rest of
  the string behind \<open>HH:MM\<close>, empty when there are no seconds).
\<close>

definition sameSeconds :: "jsstring \<Rightarrow> Schedule \<Rightarrow> bool" where
  "sameSeconds secs ev =
     (wellFormedTime (startTime ev) \<and> wellFormedTime (endTime ev) \<and>
      drop 5 (startTime ev) = secs \<and> drop 5 (endTime ev) = secs)"

subsection \<open>The layout and overlap rules in the words of the specification\<close>

text \<open>
  These follow the specification, on minute values; the theorems below compare them with
  the functions of the source.
\<close>

definition spec_top_percent :: "nat \<Rightarrow> nat \<Rightarrow> nat \<Rightarrow> rat" where
  "spec_top_percent eventStartMinutes windowStartMinutes windowEndMinutes =
     of_int (int eventStartMinutes - int windowStartMinutes) /
     of_int (int windowEndMinutes - int windowStartMinutes) * 100"

definition spec_height_percent :: "nat \<Rightarrow> nat \<Rightarrow> nat \<Rightarrow> nat \<Rightarrow> rat" where
  "spec_height_percent eventStartMinutes eventEndMinutes windowStartMinutes windowEndMinutes =
     of_int (int eventEndMinutes - int eventStartMinutes) /
     of_int (int windowEndMinutes - int windowStartMinutes) * 100"

definition spec_overlap :: "nat \<Rightarrow> nat \<Rightarrow> nat \<Rightarrow> nat \<Rightarrow> bool" where
  "spec_overlap oStart oEnd eStart eEnd =
     ((eStart \<le> oStart \<and> oStart < eEnd) \<or>
      (eStart < oEnd \<and> oEnd \<le> eEnd) \<or>
      (oStart \<le> eStart \<and> oEnd \<ge> eEnd))"

definition spec_overlapping :: "Schedule \<Rightarrow> Schedule list \<Rightarrow> Schedule list" where
  "spec_overlapping currentEvent events =
     filter (\<lambda>other. eid other \<noteq> eid currentEvent \<and>
               spec_overlap (minutesSinceMidnight (startTime other))
                            (minutesSinceMidnight (endTime other))
                            (minutesSinceMidnight (startTime currentEvent))
                            (minutesSinceMidnight (endTime currentEvent)))
       events"

subsection \<open>Concrete events and boxes for the examples\<close>

definition event :: "int \<Rightarrow> string \<Rightarrow> string \<Rightarrow> Schedule" where
  "event i s e = \<lparr> eid = i, day = js ''Saturday'', startTime = js s, endTime = js e,
       courseName = js ''Course'', classroomName = js ''Room'', color = None, description = None \<rparr>"

definition box :: "Schedule \<Rightarrow> rat \<Rightarrow> rat \<Rightarrow> Schedule list \<Rightarrow> EventBox" where
  "box ev t h ov = \<lparr> box_event = ev, box_top = Fin t, box_height = Fin h, box_overlapping = ov \<rparr>"

section \<open>TextEditor.tsx\<close>

subsection \<open>The document below the editable element\<close>

text \<open>
  The nodes that can stand below the editable \<open>div\<close>. An element carries its tag name in
  lower case (what \<open>tagName.toLowerCase()\<close> returns), its attributes and its children.
\<close>

datatype node =
    Text jsstring
  | Comment jsstring
  | Element jsstring "(jsstring \<times> jsstring) list" "node list"

text \<open>
  A node is named by the child indices that lead to it from the editable element; the
  empty path is the editable element itself.
\<close>

type_synonym path = "nat list"

fun node_at :: "node list \<Rightarrow> path \<Rightarrow> node option" where
  "node_at cs [] = None"
| "node_at cs (i # p) =
     (if i < length cs then
        (if p = [] then Some (cs ! i)
         else (case cs ! i of Element t as ds \<Rightarrow> node_at ds p | _ \<Rightarrow> None))
      else None)"

text \<open>\<open>modify_children q f cs\<close> replaces the child list \<open>ds\<close> of the element at \<open>q\<close> by \<open>f ds\<close>.\<close>

fun modify_children :: "path \<Rightarrow> (node list \<Rightarrow> node list) \<Rightarrow> node list \<Rightarrow> node list" where
  "modify_children [] f cs = f cs"
| "modify_children (i # p) f cs =
     (if i < length cs then
        (case cs ! i of
           Element t as ds \<Rightarrow> cs[i := Element t as (modify_children p f ds)]
         | _ \<Rightarrow> cs)
      else cs)"

definition modify_node :: "path \<Rightarrow> (node \<Rightarrow> node) \<Rightarrow> node list \<Rightarrow> node list" where
  "modify_node p f cs =
     (if p = [] then cs
      else modify_children (butlast p)
             (\<lambda>ds. if last p < length ds then ds[last p := f (ds ! last p)] else ds) cs)"

subsection \<open>Serialisation\<close>

text \<open>
  \<open>innerHTML\<close> read: the HTML fragment serialisation of the children. Text is escaped
  (ampersand, no-break space, less-than, greater-than) unless its parent is a raw-text
  element; an attribute value is escaped in attribute mode (ampersand, no-break space,
  double quote); a void element has no end tag and its children are not written.
\<close>

definition escapeText :: "jsstring \<Rightarrow> jsstring" where
  "escapeText s = concat (map (\<lambda>c.
       if c = 38 then js ''&amp;''
       else if c = 160 then js ''&nbsp;''
       else if c = 60 then js ''&lt;''
       else if c = 62 then js ''&gt;''
       else [c]) s)"

definition escapeAttribute :: "jsstring \<Rightarrow> jsstring" where
  "escapeAttribute s = concat (map (\<lambda>c.
       if c = 38 then js ''&amp;''
       else if c = 160 then js ''&nbsp;''
       else if c = 34 then js ''&quot;''
       else [c]) s)"

definition voidElements :: "jsstring list" where
  "voidElements = map js [''area'', ''base'', ''basefont'', ''bgsound'', ''br'', ''col'',
     ''embed'', ''frame'', ''hr'', ''img'', ''input'', ''keygen'', ''link'', ''meta'',
     ''param'', ''source'', ''track'', ''wbr'']"

definition rawTextElements :: "jsstring list" where
  "rawTextElements = map js [''style'', ''script'', ''xmp'', ''iframe'', ''noembed'',
     ''noframes'', ''plaintext'', ''noscript'']"

definition serializeAttribute :: "jsstring \<times> jsstring \<Rightarrow> jsstring" where
  "serializeAttribute a = js '' '' @ fst a @ js ''=\"'' @ escapeAttribute (snd a) @ js ''\"''"

fun serialize :: "bool \<Rightarrow> node \<Rightarrow> jsstring" where
  "serialize raw (Text d) = (if raw then d else escapeText d)"
| "serialize raw (Comment d) = js ''<!--'' @ d @ js ''-->''"
| "serialize raw (Element t as cs) =
     js ''<'' @ t @ concat (map serializeAttribute as) @ js ''>'' @
     (if t \<in> set voidElements then []
      else concat (map (serialize (t \<in> set rawTextElements)) cs) @ js ''</'' @ t @ js ''>'')"

definition innerHTML :: "node list \<Rightarrow> jsstring" where
  "innerHTML cs = concat (map (serialize False) cs)"

text \<open>\<open>textContent\<close>: the data of the text nodes below, in document order.\<close>

fun textOf :: "node \<Rightarrow> jsstring" where
  "textOf (Text d) = d"
| "textOf (Comment d) = []"
| "textOf (Element t as cs) = concat (map textOf cs)"

definition textContent :: "node list \<Rightarrow> jsstring" where
  "textContent cs = concat (map textOf cs)"


subsection \<open>Selection, ranges and the primitives of the document\<close>

text \<open>
  The state of \<open>window.getSelection()\<close> as the component reads it: no range
  (\<open>rangeCount\<close> is 0), a range whose common ancestor lies outside the editable element,
  or a range inside it. The model covers the ranges whose two ends lie in one node:
  \<open>Within c a b\<close> runs from offset \<open>a\<close> to offset \<open>b\<close> of the node at \<open>c\<close>, which is
  then the common ancestor container; offsets count code units in a text or comment
  node and children in an element. A range always designates a node of the document;
  for a path that designates none the primitives leave the document as it is.
\<close>

datatype selection = NoRange | Outside | Within path nat nat

datatype exn = HierarchyRequestError | TypeError

definition slice :: "nat \<Rightarrow> nat \<Rightarrow> 'a list \<Rightarrow> 'a list" where
  "slice a b xs = take (b - a) (drop a xs)"

definition cut :: "nat \<Rightarrow> nat \<Rightarrow> 'a list \<Rightarrow> 'a list" where
  "cut a b xs = take a xs @ drop b xs"

text \<open>
  \<open>range.extractContents()\<close>: the fragment taken out and the document left. In a text
  or comment node the fragment holds a copy of the node with the data between the
  offsets, and that data is removed from the node, which stays in place. A collapsed
  range gives an empty fragment.
\<close>

definition extractContents ::
  "path \<Rightarrow> nat \<Rightarrow> nat \<Rightarrow> node list \<Rightarrow> node list \<times> node list" where
  "extractContents c a b cs =
     (if b \<le> a then ([], cs)
      else if c = [] then (slice a b cs, cut a b cs)
      else (case node_at cs c of
              Some (Text d) \<Rightarrow> ([Text (slice a b d)], modify_node c (\<lambda>_. Text (cut a b d)) cs)
            | Some (Comment d) \<Rightarrow>
                ([Comment (slice a b d)], modify_node c (\<lambda>_. Comment (cut a b d)) cs)
            | Some (Element t as ds) \<Rightarrow> (slice a b ds, modify_children c (cut a b) cs)
            | None \<Rightarrow> ([], cs)))"

text \<open>\<open>range.deleteContents()\<close> removes the same content and returns nothing.\<close>

definition deleteContents :: "path \<Rightarrow> nat \<Rightarrow> nat \<Rightarrow> node list \<Rightarrow> node list" where
  "deleteContents c a b cs = snd (extractContents c a b cs)"

text \<open>
  \<open>range.insertNode(n)\<close> for a range that starts at offset \<open>a\<close> of the node at \<open>c\<close>: the
  new document and the path of \<open>n\<close> in it. A text node is split at the offset, also at
  its two ends, and \<open>n\<close> goes between the halves; in a comment node the call throws.
\<close>

definition insertNode :: "node \<Rightarrow> path \<Rightarrow> nat \<Rightarrow> node list \<Rightarrow> exn + node list \<times> path" where
  "insertNode n c a cs =
     (if c = [] then Inr (take a cs @ n # drop a cs, [min a (length cs)])
      else (case node_at cs c of
              Some (Text d) \<Rightarrow>
                Inr (modify_children (butlast c)
                       (\<lambda>ds. take (last c) ds @ [Text (take a d), n, Text (drop a d)] @
                              drop (Suc (last c)) ds) cs,
                     butlast c @ [Suc (last c)])
            | Some (Comment d) \<Rightarrow> Inl HierarchyRequestError
            | Some (Element t as ds) \<Rightarrow>
                Inr (modify_children c (\<lambda>ds. take a ds @ n # drop a ds) cs,
                     c @ [min a (length ds)])
            | None \<Rightarrow> Inr (cs, c)))"

text \<open>
  The lower-case tag name of \<open>range.commonAncestorContainer.parentElement\<close>. The parent
  of the editable element is the \<open>div\<close> that wraps it, and the editable element is a
  \<open>div\<close> too.
\<close>

definition parentElementTag :: "node list \<Rightarrow> path \<Rightarrow> jsstring option" where
  "parentElementTag cs c =
     (if length c \<le> 1 then Some (js ''div'')
      else (case node_at cs (butlast c) of
              Some (Element t as ds) \<Rightarrow> Some t
            | _ \<Rightarrow> None))"

subsection \<open>The component\<close>

datatype dir = LTR | RTL

datatype align = AlignLeft | AlignRight

text \<open>
  The state the functions below read and write: whether \<open>editorRef.current\<close> is set,
  the prop \<open>disabled\<close> (the element is \<open>contentEditable\<close> when it is false), whether the
  editable element has the focus, its children, the selection, the two style
  properties that \<open>handleChange\<close> sets, the React state, the arguments of the calls of
  \<open>onChange\<close> so far, and what was written to the console.
\<close>

record editor =
  mounted :: bool
  disabled :: bool
  hasFocus :: bool
  childNodes :: "node list"
  selection :: selection
  style_direction :: dir
  style_textAlign :: "align option"
  textDirection :: dir
  editorIsEmpty :: bool
  changes :: "jsstring list"
  console :: "jsstring list"
  showLinkDropdown :: bool
  linkUrl :: jsstring
  linkText :: jsstring
  showImageDropdown :: bool
  imageUrl :: jsstring
  imageAlt :: jsstring

text \<open>
  What the component is given: the two URL handlers, and the primitives of the browser
  that are not modelled further: where \<open>focus()\<close> leaves the selection when the element
  takes the focus, \<open>document.execCommand\<close> on document and selection, the HTML parser
  (in the context of a \<open>div\<close>) behind \<open>innerHTML = ...\<close> and \<open>insertAdjacentHTML\<close>, and
  the text of the \<open>style\<close> attribute that results from assignments to properties of
  \<open>element.style\<close>.
\<close>

record env =
  linkUrlHandler :: "(jsstring \<Rightarrow> jsstring) option"
  imageUrlHandler :: "(jsstring \<Rightarrow> jsstring) option"
  focus :: "selection \<Rightarrow> selection"
  execCommand ::
    "jsstring \<Rightarrow> jsstring option \<Rightarrow> node list \<times> selection \<Rightarrow> exn + node list \<times> selection"
  parseHTML :: "jsstring \<Rightarrow> node list"
  cssText :: "(jsstring \<times> jsstring) list \<Rightarrow> jsstring"

text \<open>
  The pattern \<open>arabicRegex\<close>, one code unit in U+0600 to U+06FF (1536 to 1791) or in
  U+0750 to U+077F (1872 to 1919), tested on the code units of the string.
\<close>

definition arabicRegex_test :: "jsstring \<Rightarrow> bool" where
  "arabicRegex_test s = list_ex (\<lambda>c. (1536 \<le> c \<and> c \<le> 1791) \<or> (1872 \<le> c \<and> c \<le> 1919)) s"

text \<open>\<open>s.trim()\<close> strips white space and line terminators at both ends.\<close>

definition isWhiteSpace :: "nat \<Rightarrow> bool" where
  "isWhiteSpace c =
     (c \<in> {9, 10, 11, 12, 13, 32, 160, 5760, 8232, 8233, 8239, 8287, 12288, 65279} \<or>
      (8192 \<le> c \<and> c \<le> 8202))"

definition trim :: "jsstring \<Rightarrow> jsstring" where
  "trim s = rev (dropWhile isWhiteSpace (rev (dropWhile isWhiteSpace s)))"

definition startsWith :: "jsstring \<Rightarrow> jsstring \<Rightarrow> bool" where
  "startsWith s p = (take (length p) s = p)"

definition handleChange :: "editor \<Rightarrow> editor" where
  "handleChange st =
     (if mounted st then
        (let text = textContent (childNodes st);
             content = innerHTML (childNodes st);
             st1 = (if arabicRegex_test text
                    then st\<lparr> textDirection := RTL, style_direction := RTL,
                             style_textAlign := Some AlignRight \<rparr>
                    else st\<lparr> textDirection := LTR, style_direction := LTR,
                             style_textAlign := Some AlignLeft \<rparr>)
         in st1\<lparr> changes := changes st1 @ [content], editorIsEmpty := (trim text = []) \<rparr>)
      else st)"

text \<open>
  \<open>editorRef.current.focus()\<close>. Nothing happens when the element is not editable (it
  cannot take the focus then) or has the focus already. Otherwise it takes the focus,
  the \<open>onFocus\<close> handler runs \<open>setEditorIsEmpty(false)\<close>, and the browser places the
  selection. \<open>gainFocus\<close> is the call where the selection is set anew right after it.
\<close>

definition gainFocus :: "editor \<Rightarrow> editor" where
  "gainFocus st =
     (if disabled st \<or> hasFocus st then st
      else st\<lparr> hasFocus := True, editorIsEmpty := False \<rparr>)"

definition focusEditor :: "env \<Rightarrow> editor \<Rightarrow> editor" where
  "focusEditor e st =
     (if disabled st \<or> hasFocus st then st
      else st\<lparr> hasFocus := True, editorIsEmpty := False,
               selection := focus e (selection st) \<rparr>)"

text \<open>
  The effect on \<open>value\<close>: when the prop differs from the serialised document, the
  document is replaced by the parsed prop (a range inside collapses to the start of the
  editable element) and \<open>editorIsEmpty\<close> is set. Neither the pattern is tested nor the
  direction set here.
\<close>

definition valueEffect :: "env \<Rightarrow> jsstring \<Rightarrow> editor \<Rightarrow> editor" where
  "valueEffect e val st =
     (if mounted st \<and> val \<noteq> innerHTML (childNodes st) then
        st\<lparr> childNodes := parseHTML e val,
            selection := (case selection st of Within c a b \<Rightarrow> Within [] 0 0 | sel \<Rightarrow> sel),
            editorIsEmpty := (trim (textContent (parseHTML e val)) = []) \<rparr>
      else st)"

text \<open>
  \<open>wrapSelectionWithTag\<close> is called with the four tag names of \<open>toggleBold\<close>,
  \<open>toggleItalic\<close>, \<open>toggleUnderline\<close> and \<open>toggleStrikethrough\<close> only.
\<close>

datatype toggle_tag = Strong | Em | U | S

fun tagName :: "toggle_tag \<Rightarrow> jsstring" where
  "tagName Strong = js ''strong''"
| "tagName Em = js ''em''"
| "tagName U = js ''u''"
| "tagName S = js ''s''"

text \<open>
  The branch that removes the wrapper at path \<open>q\<close>: its children move in front of it and
  it is removed. The range was inside one of the children; moving a node resets the
  ranges inside it, so the range ends collapsed where the wrapper was removed, behind
  the moved children.
\<close>

definition unwrapElement :: "path \<Rightarrow> editor \<Rightarrow> editor" where
  "unwrapElement q st =
     (case node_at (childNodes st) q of
        Some (Element t as kids) \<Rightarrow>
          st\<lparr> childNodes :=
                 modify_children (butlast q)
                   (\<lambda>ds. take (last q) ds @ kids @ drop (Suc (last q)) ds) (childNodes st),
               selection := Within (butlast q) (last q + length kids) (last q + length kids) \<rparr>
      | _ \<Rightarrow> st)"

text \<open>
  A thrown exception is returned with the state reached when it was thrown. The call
  of \<open>updateFormattingState\<close> after \<open>handleChange\<close> only sets the component's
  \<open>formattingState\<close>, which no function here reads; it is left out.
\<close>

definition wrapSelectionWithTag :: "toggle_tag \<Rightarrow> editor \<Rightarrow> exn \<times> editor + editor" where
  "wrapSelectionWithTag tag st =
     (if \<not> mounted st then Inr st
      else (case selection st of
        Within c a b \<Rightarrow>
          (if parentElementTag (childNodes st) c = Some (tagName tag) then
             Inr (handleChange (unwrapElement (butlast c) st))
           else if a \<noteq> b then
             (let (fragment, cs1) = extractContents c a b (childNodes st);
                  newNode = Element (tagName tag) [] fragment
              in (case insertNode newNode c a cs1 of
                    Inl e \<Rightarrow> Inl (e, st\<lparr> childNodes := cs1, selection := Within c a a \<rparr>)
                  | Inr (cs2, p) \<Rightarrow>
                      Inr (handleChange
                             (st\<lparr> childNodes := cs2,
                                  selection := Within p 0 (length fragment) \<rparr>))))
           else
             (let newNode = Element (tagName tag) [] [Text [8203]]
              in (case insertNode newNode c a (childNodes st) of
                    Inl e \<Rightarrow> Inl (e, st)
                  | Inr (cs2, p) \<Rightarrow>
                      Inr (handleChange (st\<lparr> childNodes := cs2, selection := Within p 0 0 \<rparr>)))))
      | Outside \<Rightarrow> Inr st
      | NoRange \<Rightarrow>
          (let st0 = gainFocus st;
               newNode = Element (tagName tag) [] [Text [8203]]
           in Inr (handleChange
                     (st0\<lparr> childNodes := childNodes st0 @ [newNode],
                           selection := Within [length (childNodes st0)] 0 0 \<rparr>)))))"

definition toggleBold :: "editor \<Rightarrow> exn \<times> editor + editor" where
  "toggleBold = wrapSelectionWithTag Strong"

definition toggleItalic :: "editor \<Rightarrow> exn \<times> editor + editor" where
  "toggleItalic = wrapSelectionWithTag Em"

definition toggleUnderline :: "editor \<Rightarrow> exn \<times> editor + editor" where
  "toggleUnderline = wrapSelectionWithTag U"

definition toggleStrikethrough :: "editor \<Rightarrow> exn \<times> editor + editor" where
  "toggleStrikethrough = wrapSelectionWithTag S"

text \<open>
  The \<open>try\<close> block shared, word for word, by \<open>insertLink\<close> and \<open>insertImage\<close>:
  with a range inside the editable element, delete its contents, parse the HTML into a
  temporary \<open>div\<close>, insert the first node parsed (\<open>insertNode(null)\<close> is a TypeError) and
  put the collapsed range behind it; otherwise append the HTML to the document.
\<close>

definition insertAtSelection :: "env \<Rightarrow> jsstring \<Rightarrow> editor \<Rightarrow> exn \<times> editor + editor" where
  "insertAtSelection e html st =
     (case selection st of
        Within c a b \<Rightarrow>
          (let cs1 = deleteContents c a b (childNodes st);
               st1 = st\<lparr> childNodes := cs1, selection := Within c a a \<rparr>
           in (case parseHTML e html of
                 [] \<Rightarrow> Inl (TypeError, st1)
               | n # _ \<Rightarrow>
                   (case insertNode n c a cs1 of
                      Inl x \<Rightarrow> Inl (x, st1)
                    | Inr (cs2, p) \<Rightarrow>
                        Inr (st1\<lparr> childNodes := cs2,
                                  selection := Within (butlast p) (Suc (last p)) (Suc (last p)) \<rparr>))))
      | _ \<Rightarrow> Inr (st\<lparr> childNodes := childNodes st @ parseHTML e html \<rparr>))"

text \<open>The \<open>catch\<close> block of both: append the HTML to the document.\<close>

definition insertOrAppend :: "env \<Rightarrow> jsstring \<Rightarrow> editor \<Rightarrow> editor" where
  "insertOrAppend e html st =
     (case insertAtSelection e html st of
        Inr st1 \<Rightarrow> st1
      | Inl (x, st1) \<Rightarrow> st1\<lparr> childNodes := childNodes st1 @ parseHTML e html \<rparr>)"

definition linkHTML :: "jsstring \<Rightarrow> jsstring \<Rightarrow> jsstring" where
  "linkHTML processedUrl text =
     js ''<a href=\"'' @ processedUrl @
     js ''\" style=\"color: #3b82f6; text-decoration: underline;\" target=\"_blank\" rel=\"noopener noreferrer\">'' @
     text @ js ''</a>''"

text \<open>\<open>linkUrlHandler ? linkUrlHandler(linkUrl) : linkUrl\<close>, and the same for images.\<close>

definition processedLinkUrl :: "env \<Rightarrow> editor \<Rightarrow> jsstring" where
  "processedLinkUrl e st =
     (case linkUrlHandler e of Some h \<Rightarrow> h (linkUrl st) | None \<Rightarrow> linkUrl st)"

definition processedImageUrl :: "env \<Rightarrow> editor \<Rightarrow> jsstring" where
  "processedImageUrl e st =
     (case imageUrlHandler e of Some h \<Rightarrow> h (imageUrl st) | None \<Rightarrow> imageUrl st)"

definition insertLink :: "env \<Rightarrow> editor \<Rightarrow> editor" where
  "insertLink e st =
     (if linkUrl st \<noteq> [] \<and> linkText st \<noteq> [] \<and> mounted st then
        (let processedUrl = processedLinkUrl e st;
             st0 = focusEditor e st;
             st1 = insertOrAppend e (linkHTML processedUrl (linkText st)) st0
         in handleChange (st1\<lparr> showLinkDropdown := False, linkUrl := [], linkText := [] \<rparr>))
      else st)"

definition imgHTML :: "jsstring \<Rightarrow> jsstring \<Rightarrow> jsstring" where
  "imgHTML processedUrl alt =
     js ''<img src=\"'' @ processedUrl @ js ''\" alt=\"'' @
     (if alt \<noteq> [] then alt else js ''Image'') @
     js ''\" style=\"max-width: 100%; height: auto; border-radius: 8px; margin: 10px 0; display: block;\" />''"

definition insertImage :: "env \<Rightarrow> editor \<Rightarrow> editor" where
  "insertImage e st =
     (if imageUrl st \<noteq> [] \<and> mounted st then
        (let processedUrl = processedImageUrl e st;
             st0 = focusEditor e st;
             st1 = insertOrAppend e (imgHTML processedUrl (imageAlt st)) st0
         in handleChange (st1\<lparr> showImageDropdown := False, imageUrl := [], imageAlt := [] \<rparr>))
      else st)"

text \<open>
  \<open>applyFormat\<close> up to the call of \<open>document.execCommand\<close>: the editable element is
  focused and, for the \<open>justify...\<close> and the list commands, an empty document is given a
  block with the range set inside it. The selection is not looked at.
\<close>

definition beforeExecCommand :: "env \<Rightarrow> jsstring \<Rightarrow> editor \<Rightarrow> editor" where
  "beforeExecCommand e command st =
     (let st1 = focusEditor e st;
          st2 = (if startsWith command (js ''justify'') \<and>
                    trim (innerHTML (childNodes st1)) = []
                 then st1\<lparr> childNodes := [Element (js ''div'') [] [Element (js ''br'') [] []]],
                           selection := Within [0] 0 0 \<rparr>
                 else st1)
      in (if (command = js ''insertOrderedList'' \<or> command = js ''insertUnorderedList'') \<and>
             trim (innerHTML (childNodes st2)) = []
          then st2\<lparr> childNodes := [Element (js ''div'') [] [Text (js ''List item'')]],
                    selection := Within [0] 0 1 \<rparr>
          else st2))"

definition applyFormat ::
  "env \<Rightarrow> jsstring \<Rightarrow> jsstring option \<Rightarrow> editor \<Rightarrow> exn \<times> editor + editor" where
  "applyFormat e command val st =
     (if disabled st then Inr st
      else if \<not> mounted st then Inr st
      else
        (let st3 = beforeExecCommand e command st
         in (case execCommand e command val (childNodes st3, selection st3) of
               Inl x \<Rightarrow> Inl (x, st3)
             | Inr (cs, sel) \<Rightarrow>
                 Inr (handleChange (st3\<lparr> childNodes := cs, selection := sel \<rparr>)))))"


definition blockquoteStyle :: "env \<Rightarrow> jsstring \<times> jsstring" where
  "blockquoteStyle e =
     (js ''style'',
      cssText e [(js ''borderLeft'', js ''4px solid #3b82f6''), (js ''paddingLeft'', js ''16px''),
                 (js ''margin'', js ''16px 0''), (js ''fontStyle'', js ''italic''),
                 (js ''color'', js ''#6b7280'')])"

definition insertBlockquote :: "env \<Rightarrow> editor \<Rightarrow> exn \<times> editor + editor" where
  "insertBlockquote e st =
     (if \<not> mounted st then Inr st
      else (case selection st of
        Within c a b \<Rightarrow>
          (let (kids, cs1) =
                 (if a \<noteq> b then extractContents c a b (childNodes st)
                  else ([Text (js ''Quote text here...'')], childNodes st));
               blockquoteElement = Element (js ''blockquote'') [blockquoteStyle e] kids
           in (case insertNode blockquoteElement c a cs1 of
                 Inl x \<Rightarrow> Inl (x, st\<lparr> childNodes := cs1, selection := Within c a a \<rparr>)
               | Inr (cs2, p) \<Rightarrow>
                   Inr (handleChange
                          (st\<lparr> childNodes := cs2, selection := Within p 0 (length kids) \<rparr>))))
      | Outside \<Rightarrow> Inr st
      | NoRange \<Rightarrow>
          (let st0 = gainFocus st;
               blockquoteElement =
                 Element (js ''blockquote'') [blockquoteStyle e] [Text (js ''Quote text here...'')]
           in Inr (handleChange
                     (st0\<lparr> childNodes := childNodes st0 @ [blockquoteElement],
                           selection := Within [length (childNodes st0)] 0 1 \<rparr>)))))"

definition preStyle :: "env \<Rightarrow> jsstring \<times> jsstring" where
  "preStyle e =
     (js ''style'',
      cssText e [(js ''backgroundColor'', js ''#f3f4f6''), (js ''padding'', js ''12px''),
                 (js ''borderRadius'', js ''6px''), (js ''overflow'', js ''auto'')])"

text \<open>
  \<open>insertCodeBlock\<close> tests \<open>editorRef.current\<close> only inside its two branches. In the
  branch without a range the second look at \<open>rangeCount\<close> finds 0 again, so the
  \<open>pre\<close> goes to the end of the document.
\<close>

definition insertCodeBlock :: "env \<Rightarrow> editor \<Rightarrow> exn \<times> editor + editor" where
  "insertCodeBlock e st =
     (case selection st of
        Within c a b \<Rightarrow>
          (if mounted st then
             (let (fragment, cs1) = extractContents c a b (childNodes st);
                  codeElement = Element (js ''code'') [] fragment;
                  preElement = Element (js ''pre'') [preStyle e] [codeElement]
              in (case insertNode preElement c a cs1 of
                    Inl x \<Rightarrow> Inl (x, st\<lparr> childNodes := cs1, selection := Within c a a \<rparr>)
                  | Inr (cs2, p) \<Rightarrow>
                      Inr (handleChange (st\<lparr> childNodes := cs2, selection := Within p 0 1 \<rparr>))))
           else Inr st)
      | Outside \<Rightarrow> Inr st
      | NoRange \<Rightarrow>
          (if mounted st then
             (let codeElement = Element (js ''code'') [] [Element (js ''br'') [] []];
                  preElement = Element (js ''pre'') [preStyle e] [codeElement]
              in Inr (handleChange
                        (st\<lparr> childNodes := childNodes st @ [preElement],
                             selection := Within [length (childNodes st), 0] 0 0 \<rparr>)))
           else Inr st))"

subsection \<open>Auxiliary definitions and concrete states for the examples\<close>

definition arabicCodeUnit :: "nat \<Rightarrow> bool" where
  "arabicCodeUnit c = ((1536 \<le> c \<and> c \<le> 1791) \<or> (1872 \<le> c \<and> c \<le> 1919))"

fun children_at :: "node list \<Rightarrow> path \<Rightarrow> node list option" where
  "children_at cs [] = Some cs"
| "children_at cs (i # p) =
     (if i < length cs then
        (case cs ! i of Element t as ds \<Rightarrow> children_at ds p | _ \<Rightarrow> None)
      else None)"

definition editorWith :: "node list \<Rightarrow> selection \<Rightarrow> editor" where
  "editorWith cs sel = \<lparr> mounted = True, disabled = False, hasFocus = False,
      childNodes = cs, selection = sel,
      style_direction = LTR, style_textAlign = None, textDirection = LTR,
      editorIsEmpty = (trim (textContent cs) = []), changes = [], console = [],
      showLinkDropdown = False, linkUrl = [], linkText = [],
      showImageDropdown = False, imageUrl = [], imageAlt = [] \<rparr>"

definition exampleLink :: node where
  "exampleLink = Element (js ''a'')
     [(js ''href'', js ''u''), (js ''style'', js ''color: #3b82f6; text-decoration: underline;''),
      (js ''target'', js ''_blank''), (js ''rel'', js ''noopener noreferrer'')]
     [Text (js ''t'')]"

definition exampleImage :: node where
  "exampleImage = Element (js ''img'')
     [(js ''src'', js ''u''), (js ''alt'', js ''Image''),
      (js ''style'', js ''max-width: 100%; height: auto; border-radius: 8px; margin: 10px 0; display: block;'')]
     []"

definition exampleHost :: env where
  "exampleHost = \<lparr> linkUrlHandler = None, imageUrlHandler = None,
      focus = (\<lambda>sel. sel),
      execCommand = (\<lambda>command val doc. Inr doc),
      parseHTML = (\<lambda>html. if html = linkHTML (js ''u'') (js ''t'') then [exampleLink]
                          else if html = imgHTML (js ''u'') [] then [exampleImage] else []),
      cssText = (\<lambda>props. []) \<rparr>"

definition arabicWord :: jsstring where
  "arabicWord = [1605, 1585, 1581, 1576, 1575]"

definition arabicValue :: jsstring where
  "arabicValue = js ''<p>'' @ arabicWord @ js ''</p>''"

definition arabicHost :: env where
  "arabicHost = exampleHost\<lparr> parseHTML :=
      (\<lambda>html. if html = arabicValue then [Element (js ''p'') [] [Text arabicWord]] else []) \<rparr>"

definition thenToggle :: "toggle_tag \<Rightarrow> exn \<times> editor + editor \<Rightarrow> exn \<times> editor + editor" where
  "thenToggle tag r = (case r of Inl x \<Rightarrow> Inl x | Inr st \<Rightarrow> wrapSelectionWithTag tag st)"

definition reselect :: "selection \<Rightarrow> exn \<times> editor + editor \<Rightarrow> exn \<times> editor + editor" where
  "reselect sel r = (case r of Inl x \<Rightarrow> Inl x | Inr st \<Rightarrow> Inr (st\<lparr> selection := sel \<rparr>))"

definition outcome :: "exn \<times> editor + editor \<Rightarrow> exn + (jsstring \<times> selection)" where
  "outcome r = (case r of Inl (x, st) \<Rightarrow> Inl x | Inr st \<Rightarrow> Inr (innerHTML (childNodes st), selection st))"

section \<open>Properties of the schedule grid\<close>

subsection \<open>Auxiliary facts\<close>

lemmas ev_simps = js_def event_def wellFormedTime_def hhmm_def inWindow_def
  minutesSinceMidnight_def digit_def is_digit_def wellFormedEvent_def

lemmas eval_simps = ev_simps renderDay_def eventBox_def timeToPosition_def calculateHeight_def
  findOverlappingEvents_def js_ge_def js_gt_def js_le_def isEventVisible_def isTimeInRange_def
  hoursMinutes_def Number_def digits_value_def

lemma hhmm_cases:
  assumes "hhmm s"
  obtains h1 h2 m1 m2 where "s = [h1, h2, 58, m1, m2]" "is_digit h1" "is_digit h2" "is_digit m1" "is_digit m2" "10 * digit m1 + digit m2 < 60"
  using assms by (auto simp: hhmm_def split: list.splits)

lemma wf_cases:
  assumes "wellFormedTime s"
  obtains h1 h2 m1 m2 where "s = [h1, h2, 58, m1, m2]" "is_digit h1" "is_digit h2" "is_digit m1" "is_digit m2" "10 * digit m1 + digit m2 < 60"
  | h1 h2 m1 m2 s1 s2 where "s = [h1, h2, 58, m1, m2, 58, s1, s2]" "is_digit h1" "is_digit h2" "is_digit m1" "is_digit m2" "10 * digit m1 + digit m2 < 60" "is_digit s1" "is_digit s2"
proof (cases "hhmm s")
  case True
  then show ?thesis using that(1) by (elim hhmm_cases) blast
next
  case False
  with assms obtain c s1 s2 where d: "drop 5 s = [c, s1, s2]" and h: "hhmm (take 5 s)"
    and r: "c = 58" "is_digit s1" "is_digit s2"
    by (auto simp: wellFormedTime_def split: list.splits)
  from h obtain h1 h2 m1 m2 where t: "take 5 s = [h1, h2, 58, m1, m2]"
    and dg: "is_digit h1" "is_digit h2" "is_digit m1" "is_digit m2" "10 * digit m1 + digit m2 < 60"
    by (elim hhmm_cases) blast
  have "s = take 5 s @ drop 5 s" by simp
  then have "s = [h1, h2, 58, m1, m2, 58, s1, s2]" using t d r by simp
  then show ?thesis using that(2) dg r by blast
qed

lemma digit_not_colon: "is_digit c \<Longrightarrow> c \<noteq> 58"
  by (simp add: is_digit_def)

lemma Number_two_digits:
  "is_digit a \<Longrightarrow> is_digit b \<Longrightarrow> Number [a, b] = Some (10 * digit a + digit b)"
  by (simp add: Number_def digits_value_def digit_def)

lemma hoursMinutes_wf:
  assumes "wellFormedTime s"
  obtains h m where "hoursMinutes s = Some (h, m)" "h * 60 + m = minutesSinceMidnight s"
  using assms
proof (cases rule: wf_cases)
  case (1 h1 h2 m1 m2)
  then show ?thesis using that
    by (simp add: hoursMinutes_def digit_not_colon Number_two_digits minutesSinceMidnight_def)
next
  case (2 h1 h2 m1 m2 s1 s2)
  then show ?thesis using that
    by (simp add: hoursMinutes_def digit_not_colon Number_two_digits minutesSinceMidnight_def)
qed

lemma isTimeInRange_wf:
  assumes "wellFormedTime t" "wellFormedTime ws" "wellFormedTime we"
  shows "isTimeInRange t ws we =
           Some (minutesSinceMidnight ws \<le> minutesSinceMidnight t \<and>
                 minutesSinceMidnight t \<le> minutesSinceMidnight we)"
proof -
  from assms(1) obtain h m where t: "hoursMinutes t = Some (h, m)" "h * 60 + m = minutesSinceMidnight t"
    by (rule hoursMinutes_wf)
  from assms(2) obtain sh sm where s: "hoursMinutes ws = Some (sh, sm)" "sh * 60 + sm = minutesSinceMidnight ws"
    by (rule hoursMinutes_wf)
  from assms(3) obtain eh em where e: "hoursMinutes we = Some (eh, em)" "eh * 60 + em = minutesSinceMidnight we"
    by (rule hoursMinutes_wf)
  show ?thesis
    unfolding isTimeInRange_def t(1) s(1) e(1) by (simp add: Let_def t(2) s(2) e(2))
qed

lemma isEventVisible_wf:
  assumes "wellFormedTime (startTime ev)" "wellFormedTime (endTime ev)" "wellFormedTime ws" "wellFormedTime we"
  shows "isEventVisible ws we ev = Some (inWindow ws we (startTime ev) \<and> inWindow ws we (endTime ev))"
  using assms by (auto simp: isEventVisible_def isTimeInRange_wf inWindow_def split: bool.split)

lemma visibleEvents_wf:
  assumes "wellFormedTime ws" "wellFormedTime we" "list_all wellFormedEvent evs"
  shows "visibleEvents ws we evs =
     Some (filter (\<lambda>ev. inWindow ws we (startTime ev) \<and> inWindow ws we (endTime ev)) evs)"
  using assms(3)
  by (induction evs) (simp_all add: isEventVisible_wf assms(1,2) wellFormedEvent_def)

lemma timeToPosition_wf:
  assumes "wellFormedTime t" "wellFormedTime ws" "wellFormedTime we"
  shows "timeToPosition t ws we =
     Some (js_times
             (js_divide (Fin (of_int (int (minutesSinceMidnight t) - int (minutesSinceMidnight ws))))
                        (Fin (of_int (int (minutesSinceMidnight we) - int (minutesSinceMidnight ws)))))
             (Fin 100))"
proof -
  from assms(1) obtain h m where t: "hoursMinutes t = Some (h, m)" "h * 60 + m = minutesSinceMidnight t"
    by (rule hoursMinutes_wf)
  from assms(2) obtain sh sm where s: "hoursMinutes ws = Some (sh, sm)" "sh * 60 + sm = minutesSinceMidnight ws"
    by (rule hoursMinutes_wf)
  from assms(3) obtain eh em where e: "hoursMinutes we = Some (eh, em)" "eh * 60 + em = minutesSinceMidnight we"
    by (rule hoursMinutes_wf)
  show ?thesis
    unfolding timeToPosition_def t(1) s(1) e(1)
    by (simp only: Let_def prod.case option.case t(2) s(2) e(2))
qed

lemma calculateHeight_wf:
  assumes "wellFormedTime es" "wellFormedTime ee" "wellFormedTime ws" "wellFormedTime we"
  shows "calculateHeight es ee ws we =
     Some (js_times
             (js_divide (Fin (of_int (int (minutesSinceMidnight ee) - int (minutesSinceMidnight es))))
                        (Fin (of_int (int (minutesSinceMidnight we) - int (minutesSinceMidnight ws)))))
             (Fin 100))"
proof -
  from assms(1) obtain h m where t: "hoursMinutes es = Some (h, m)" "h * 60 + m = minutesSinceMidnight es"
    by (rule hoursMinutes_wf)
  from assms(2) obtain h' m' where t': "hoursMinutes ee = Some (h', m')" "h' * 60 + m' = minutesSinceMidnight ee"
    by (rule hoursMinutes_wf)
  from assms(3) obtain sh sm where s: "hoursMinutes ws = Some (sh, sm)" "sh * 60 + sm = minutesSinceMidnight ws"
    by (rule hoursMinutes_wf)
  from assms(4) obtain eh em where e: "hoursMinutes we = Some (eh, em)" "eh * 60 + em = minutesSinceMidnight we"
    by (rule hoursMinutes_wf)
  show ?thesis
    unfolding calculateHeight_def t(1) t'(1) s(1) e(1)
    by (simp only: Let_def prod.case option.case t(2) t'(2) s(2) e(2))
qed

lemma those_boxes_map_Some: "those_boxes (map Some bs) = Some bs"
  by (induction bs) simp_all

lemma those_boxes_Some: "those_boxes os = Some bs \<longleftrightarrow> os = map Some bs"
proof
  show "those_boxes os = Some bs \<Longrightarrow> os = map Some bs"
  proof (induction os arbitrary: bs rule: those_boxes.induct)
    case 1
    then show ?case by simp
  next
    case (2 uu)
    then show ?case by simp
  next
    case (3 b bs')
    then show ?case by (auto split: option.splits)
  qed
next
  show "os = map Some bs \<Longrightarrow> those_boxes os = Some bs"
    by (simp add: those_boxes_map_Some)
qed

lemma visibleEvents_Some:
  "visibleEvents ws we evs = Some vis \<Longrightarrow>
     vis = filter (\<lambda>ev. isEventVisible ws we ev = Some True) evs"
  by (induction evs arbitrary: vis) (auto split: option.splits if_splits)

lemma renderDay_Some:
  "renderDay c ws we evs = Some boxes \<longleftrightarrow>
     (\<exists>vis. visibleEvents ws we evs = Some vis \<and> map (eventBox c ws we vis) vis = map Some boxes)"
  by (simp add: renderDay_def those_boxes_Some split: option.splits)

lemma renderDay_box:
  assumes "renderDay c ws we evs = Some boxes" "b \<in> set boxes"
  obtains vis ev where "visibleEvents ws we evs = Some vis" "ev \<in> set vis"
    "eventBox c ws we vis ev = Some b"
proof -
  from assms(1) obtain vis where v: "visibleEvents ws we evs = Some vis"
    and m: "map (eventBox c ws we vis) vis = map Some boxes"
    by (auto simp: renderDay_Some)
  from assms(2) have "Some b \<in> set (map Some boxes)" by simp
  with m have "Some b \<in> set (map (eventBox c ws we vis) vis)" by simp
  then obtain ev where "ev \<in> set vis" "eventBox c ws we vis ev = Some b" by auto
  with v show ?thesis using that by blast
qed

lemma eventBox_event:
  "eventBox c ws we vis ev = Some b \<Longrightarrow> box_event b = ev"
  by (auto simp: eventBox_def split: option.splits)

lemma renderDay_events:
  assumes "renderDay c ws we evs = Some boxes"
  shows "map box_event boxes = filter (\<lambda>ev. isEventVisible ws we ev = Some True) evs"
proof -
  from assms obtain vis where v: "visibleEvents ws we evs = Some vis"
    and m: "map (eventBox c ws we vis) vis = map Some boxes"
    by (auto simp: renderDay_Some)
  have len: "length boxes = length vis" using m by (metis length_map)
  have "map box_event boxes = vis"
  proof (rule nth_equalityI)
    show "length (map box_event boxes) = length vis" using len by simp
  next
    fix i assume "i < length (map box_event boxes)"
    then have i: "i < length vis" "i < length boxes" using len by simp_all
    have "map (eventBox c ws we vis) vis ! i = map Some boxes ! i" using m by simp
    then have "eventBox c ws we vis (vis ! i) = Some (boxes ! i)" using i by simp
    then show "map box_event boxes ! i = vis ! i" using i by (simp add: eventBox_event)
  qed
  then show ?thesis using visibleEvents_Some[OF v] by simp
qed

lemma eventBox_wf:
  assumes "wellFormedTime ws" "wellFormedTime we" "wellFormedEvent ev"
  shows "\<exists>b. eventBox c ws we vis ev = Some b"
  using assms by (simp add: eventBox_def timeToPosition_wf calculateHeight_wf wellFormedEvent_def)

lemma map_Some_ex:
  "(\<forall>x \<in> set xs. \<exists>b. f x = Some b) \<Longrightarrow> \<exists>bs. map f xs = map Some bs"
proof (induction xs)
  case Nil
  then show ?case by simp
next
  case (Cons x xs)
  then obtain bs where "map f xs = map Some bs" by auto
  moreover from Cons.prems obtain b where "f x = Some b" by auto
  ultimately have "map f (x # xs) = map Some (b # bs)" by simp
  then show ?case by blast
qed

lemma renderDay_wf:
  assumes "wellFormedTime ws" "wellFormedTime we" "list_all wellFormedEvent evs"
  shows "\<exists>boxes. renderDay c ws we evs = Some boxes"
proof -
  let ?vis = "filter (\<lambda>ev. inWindow ws we (startTime ev) \<and> inWindow ws we (endTime ev)) evs"
  have v: "visibleEvents ws we evs = Some ?vis" using assms by (rule visibleEvents_wf)
  have "\<forall>ev \<in> set ?vis. \<exists>b. eventBox c ws we ?vis ev = Some b"
    using assms by (auto simp: list_all_iff intro: eventBox_wf)
  then obtain boxes where "map (eventBox c ws we ?vis) ?vis = map Some boxes"
    using map_Some_ex by blast
  with v show ?thesis by (auto simp: renderDay_Some)
qed

lemma Math_max_Fin: "Math_max (Fin a) (Fin b) = Fin (max a b)"
  by (simp add: max_def)

lemma percent_Fin:
  "b \<noteq> 0 \<Longrightarrow> js_times (js_divide (Fin a) (Fin b)) (Fin 100) = Fin (a / b * 100)"
  by simp

lemma visibleEvents_subset:
  "visibleEvents ws we evs = Some vis \<Longrightarrow> set vis \<subseteq> set evs"
  by (auto dest: visibleEvents_Some)

lemma js_lt_irrefl: "\<not> js_lt a a"
  by (induction a) simp_all

lemma js_lt_trans: "js_lt a b \<Longrightarrow> js_lt b c \<Longrightarrow> js_lt a c"
proof (induction a b arbitrary: c rule: js_lt.induct)
  case 1
  then show ?case by simp
next
  case (2 y ys)
  then show ?case by (cases c) simp_all
next
  case (3 x xs)
  then show ?case by simp
next
  case (4 x xs y ys)
  then show ?case by (cases c) (auto split: if_splits)
qed

lemma js_lt_total: "a = b \<or> js_lt a b \<or> js_lt b a"
  by (induction a b rule: js_lt.induct) auto

lemma is_digitE:
  assumes "is_digit c"
  obtains d where "c = 48 + d" "d \<le> 9" "digit c = d"
proof -
  from assms have r: "48 \<le> c" "c \<le> 57" by (simp_all add: is_digit_def)
  have "c = 48 + (c - 48)" using r by arith
  moreover have "c - 48 \<le> 9" using r by arith
  moreover have "digit c = c - 48" by (simp add: digit_def)
  ultimately show ?thesis by (rule that)
qed

lemma mixed_radix_lt:
  fixes H1 H2 M1 M2 K1 K2 N1 N2 :: nat
  assumes "H2 \<le> 9" "M2 \<le> 9" "K2 \<le> 9" "N2 \<le> 9" "10 * M1 + M2 < 60" "10 * N1 + N2 < 60"
  shows "(if H1 = K1 then (if H2 = K2 then (if M1 = N1 then M2 < N2 else M1 < N1) else H2 < K2) else H1 < K1)
     \<longleftrightarrow> (10 * H1 + H2) * 60 + (10 * M1 + M2) < (10 * K1 + K2) * 60 + (10 * N1 + N2)"
proof (cases "H1 = K1")
  case False
  then show ?thesis using assms by (cases "H1 < K1") auto
next
  case h1: True
  show ?thesis
  proof (cases "H2 = K2")
    case False
    then show ?thesis using assms h1 by (cases "H2 < K2") auto
  next
    case h2: True
    show ?thesis
    proof (cases "M1 = N1")
      case False
      then show ?thesis using assms h1 h2 by (cases "M1 < N1") auto
    next
      case True
      then show ?thesis using h1 h2 by simp
    qed
  qed
qed

lemma hhmm_js_lt:
  assumes "hhmm a" "hhmm b"
  shows "js_lt a b \<longleftrightarrow> minutesSinceMidnight a < minutesSinceMidnight b"
proof -
  from assms(1) obtain h1 h2 m1 m2 where a: "a = [h1, h2, 58, m1, m2]"
    and da: "is_digit h1" "is_digit h2" "is_digit m1" "is_digit m2" "10 * digit m1 + digit m2 < 60"
    by (rule hhmm_cases)
  from assms(2) obtain k1 k2 n1 n2 where b: "b = [k1, k2, 58, n1, n2]"
    and db: "is_digit k1" "is_digit k2" "is_digit n1" "is_digit n2" "10 * digit n1 + digit n2 < 60"
    by (rule hhmm_cases)
  from da(1) obtain H1 where H1: "h1 = 48 + H1" "H1 \<le> 9" "digit h1 = H1" by (rule is_digitE)
  from da(2) obtain H2 where H2: "h2 = 48 + H2" "H2 \<le> 9" "digit h2 = H2" by (rule is_digitE)
  from da(3) obtain M1 where M1: "m1 = 48 + M1" "M1 \<le> 9" "digit m1 = M1" by (rule is_digitE)
  from da(4) obtain M2 where M2: "m2 = 48 + M2" "M2 \<le> 9" "digit m2 = M2" by (rule is_digitE)
  from db(1) obtain K1 where K1: "k1 = 48 + K1" "K1 \<le> 9" "digit k1 = K1" by (rule is_digitE)
  from db(2) obtain K2 where K2: "k2 = 48 + K2" "K2 \<le> 9" "digit k2 = K2" by (rule is_digitE)
  from db(3) obtain N1 where N1: "n1 = 48 + N1" "N1 \<le> 9" "digit n1 = N1" by (rule is_digitE)
  from db(4) obtain N2 where N2: "n2 = 48 + N2" "N2 \<le> 9" "digit n2 = N2" by (rule is_digitE)
  have "js_lt a b \<longleftrightarrow>
     (if H1 = K1 then (if H2 = K2 then (if M1 = N1 then M2 < N2 else M1 < N1) else H2 < K2) else H1 < K1)"
    unfolding a b H1(1) H2(1) M1(1) M2(1) K1(1) K2(1) N1(1) N2(1) by simp
  also have "\<dots> \<longleftrightarrow> (10 * H1 + H2) * 60 + (10 * M1 + M2) < (10 * K1 + K2) * 60 + (10 * N1 + N2)"
    using H2(2) M2(2) K2(2) N2(2) da(5) db(5) unfolding M1(3) M2(3) N1(3) N2(3)
    by (rule mixed_radix_lt)
  also have "\<dots> \<longleftrightarrow> minutesSinceMidnight a < minutesSinceMidnight b"
    unfolding minutesSinceMidnight_def a b using H1(3) H2(3) M1(3) M2(3) K1(3) K2(3) N1(3) N2(3)
    by simp
  finally show ?thesis .
qed

lemma js_lt_append_differ:
  "length xs = length ys \<Longrightarrow> xs \<noteq> ys \<Longrightarrow> js_lt (xs @ r) (ys @ r') = js_lt xs ys"
  by (induction xs ys rule: list_induct2) auto

lemma wellFormedTime_take5:
  assumes "wellFormedTime s"
  shows "hhmm (take 5 s)" "minutesSinceMidnight (take 5 s) = minutesSinceMidnight s"
    "length (take 5 s) = 5"
  using assms by (cases rule: wf_cases; simp add: hhmm_def minutesSinceMidnight_def)+

text \<open>
  For well-formed times, with or without seconds, an earlier minute value is also a
  smaller string: the hypothesis \<open>startTime < endTime\<close> read on minute values implies it
  read on the strings.
\<close>

lemma minutes_lt_js_lt:
  assumes "wellFormedTime a" "wellFormedTime b"
    and "minutesSinceMidnight a < minutesSinceMidnight b"
  shows "js_lt a b"
proof -
  let ?a = "take 5 a" and ?b = "take 5 b"
  have lt: "js_lt ?a ?b"
    using hhmm_js_lt[OF wellFormedTime_take5(1)[OF assms(1)] wellFormedTime_take5(1)[OF assms(2)]]
      wellFormedTime_take5(2)[OF assms(1)] wellFormedTime_take5(2)[OF assms(2)] assms(3) by simp
  then have ne: "?a \<noteq> ?b" using js_lt_irrefl by auto
  have len: "length ?a = length ?b"
    using wellFormedTime_take5(3)[OF assms(1)] wellFormedTime_take5(3)[OF assms(2)] by simp
  have "js_lt (?a @ drop 5 a) (?b @ drop 5 b) = js_lt ?a ?b"
    using len ne by (rule js_lt_append_differ)
  then show ?thesis using lt by simp
qed

lemma findOverlappingEvents_mem:
  "x \<in> set (findOverlappingEvents e evs) \<longleftrightarrow>
     x \<in> set evs \<and> eid x \<noteq> eid e \<and>
     ((js_ge (startTime x) (startTime e) \<and> js_lt (startTime x) (endTime e)) \<or>
      (js_gt (endTime x) (startTime e) \<and> js_le (endTime x) (endTime e)) \<or>
      (js_le (startTime x) (startTime e) \<and> js_ge (endTime x) (endTime e)))"
  by (simp add: findOverlappingEvents_def)

lemma three_way_intervals:
  assumes "js_lt s1 e1" "js_lt s2 e2"
  shows "((js_ge s1 s2 \<and> js_lt s1 e2) \<or> (js_gt e1 s2 \<and> js_le e1 e2) \<or> (js_le s1 s2 \<and> js_ge e1 e2))
     \<longleftrightarrow> js_lt s1 e2 \<and> js_lt s2 e1"
  unfolding js_ge_def js_gt_def js_le_def
  using assms by (metis js_lt_irrefl js_lt_trans js_lt_total)

lemma renderDay_overlapping:
  assumes "renderDay c ws we evs = Some boxes" "b \<in> set boxes"
  shows "box_overlapping b = findOverlappingEvents (box_event b) (map box_event boxes)"
    and "box_event b \<in> set (map box_event boxes)"
proof -
  from assms obtain vis ev where v: "visibleEvents ws we evs = Some vis"
    and bx: "eventBox c ws we vis ev = Some b"
    by (rule renderDay_box)
  have "map box_event boxes = vis"
    using renderDay_events[OF assms(1)] visibleEvents_Some[OF v] by simp
  moreover have "box_overlapping b = findOverlappingEvents (box_event b) vis"
    using bx by (auto simp: eventBox_def split: option.splits)
  ultimately show "box_overlapping b = findOverlappingEvents (box_event b) (map box_event boxes)"
    by simp
  show "box_event b \<in> set (map box_event boxes)" using assms(2) by simp
qed

lemma same_seconds_js_lt:
  assumes "wellFormedTime a" "wellFormedTime b" "drop 5 a = drop 5 b"
  shows "js_lt a b \<longleftrightarrow> minutesSinceMidnight a < minutesSinceMidnight b"
proof (cases "take 5 a = take 5 b")
  case True
  then have "a = b" using assms(3) by (metis append_take_drop_id)
  then show ?thesis by (simp add: js_lt_irrefl)
next
  case False
  have len: "length (take 5 a) = length (take 5 b)"
    using wellFormedTime_take5(3)[OF assms(1)] wellFormedTime_take5(3)[OF assms(2)] by simp
  have "js_lt (take 5 a @ drop 5 a) (take 5 b @ drop 5 b) = js_lt (take 5 a) (take 5 b)"
    using len False by (rule js_lt_append_differ)
  then have "js_lt a b = js_lt (take 5 a) (take 5 b)" by simp
  also have "\<dots> \<longleftrightarrow> minutesSinceMidnight (take 5 a) < minutesSinceMidnight (take 5 b)"
    using wellFormedTime_take5(1)[OF assms(1)] wellFormedTime_take5(1)[OF assms(2)]
    by (rule hhmm_js_lt)
  finally show ?thesis
    using wellFormedTime_take5(2)[OF assms(1)] wellFormedTime_take5(2)[OF assms(2)] by simp
qed

lemma same_seconds_three_way:
  assumes "wellFormedTime s1" "wellFormedTime e1" "wellFormedTime s2" "wellFormedTime e2"
    and "drop 5 s1 = t" "drop 5 e1 = t" "drop 5 s2 = t" "drop 5 e2 = t"
  shows "((js_ge s1 s2 \<and> js_lt s1 e2) \<or> (js_gt e1 s2 \<and> js_le e1 e2) \<or> (js_le s1 s2 \<and> js_ge e1 e2))
     \<longleftrightarrow> spec_overlap (minutesSinceMidnight s1) (minutesSinceMidnight e1)
                       (minutesSinceMidnight s2) (minutesSinceMidnight e2)"
  unfolding js_ge_def js_gt_def js_le_def spec_overlap_def
  using assms by (simp add: same_seconds_js_lt not_less)

lemma calculateHeight_minutesOf:
  assumes "calculateHeight s t ws we = Some h"
  shows "\<exists>a b c d. minutesOf s = Some a \<and> minutesOf t = Some b \<and>
           minutesOf ws = Some c \<and> minutesOf we = Some d \<and>
           h = js_times (js_divide (Fin (of_int (int b - int a))) (Fin (of_int (int d - int c))))
                 (Fin 100)"
  using assms
  by (simp only: calculateHeight_def minutesOf_def Let_def split: option.splits prod.splits)
     (auto simp only: option.simps prod.simps simp_thms)

lemma isTimeInRange_minutesOf:
  assumes "isTimeInRange t ws we = Some True"
  shows "\<exists>a c d. minutesOf t = Some a \<and> minutesOf ws = Some c \<and> minutesOf we = Some d \<and>
           c \<le> a \<and> a \<le> d"
  using assms
  by (auto simp: isTimeInRange_def minutesOf_def Let_def split: option.splits prod.splits)

lemma isEventVisible_True:
  assumes "isEventVisible ws we ev = Some True"
  shows "isTimeInRange (startTime ev) ws we = Some True"
  using assms by (auto simp: isEventVisible_def split: option.splits bool.splits)

subsection \<open>The claims about the schedule grid\<close>

text \<open>
  C1 as stated fails once a time carries seconds: the source compares the time strings, and
  \<open>"08:00:30" > "08:00"\<close> although both are minute 480. The event 07:00 to 08:00:30 is
  listed as overlapping the event 08:00 to 09:00, and the minute intervals do not meet.
\<close>

theorem overlap_minutes_counterexample:
  "list_all wellFormedEvent [event 1 ''08:00'' ''09:00'', event 2 ''07:00'' ''08:00:30''] \<and>
   visibleEvents (js ''07:00'') (js ''16:00'') [event 1 ''08:00'' ''09:00'', event 2 ''07:00'' ''08:00:30'']
     = Some [event 1 ''08:00'' ''09:00'', event 2 ''07:00'' ''08:00:30''] \<and>
   findOverlappingEvents (event 1 ''08:00'' ''09:00'') [event 1 ''08:00'' ''09:00'', event 2 ''07:00'' ''08:00:30'']
     = [event 2 ''07:00'' ''08:00:30''] \<and>
   spec_overlapping (event 1 ''08:00'' ''09:00'') [event 1 ''08:00'' ''09:00'', event 2 ''07:00'' ''08:00:30'']
     = []"
  by (simp add: ev_simps findOverlappingEvents_def spec_overlapping_def spec_overlap_def
        js_ge_def js_gt_def js_le_def isEventVisible_def isTimeInRange_def hoursMinutes_def
        Number_def digits_value_def)

text \<open>
  C1, amended. When the times of the drawn events of a day are well-formed and all carry
  the same seconds part, or all none, the overlap list of every drawn event E is exactly
  the list of the other drawn events (those with another id) whose minute intervals
  meet E's by the three-way test of the specification, in their order.
\<close>

theorem overlap_same_seconds:
  assumes "renderDay compactMode ws we dayEvents = Some boxes" "b \<in> set boxes"
    and "\<forall>ev \<in> set (map box_event boxes). sameSeconds secs ev"
  shows "box_overlapping b = spec_overlapping (box_event b) (map box_event boxes)"
proof -
  have E: "sameSeconds secs (box_event b)" using assms(2,3) by auto
  have "findOverlappingEvents (box_event b) (map box_event boxes)
      = spec_overlapping (box_event b) (map box_event boxes)"
    unfolding findOverlappingEvents_def spec_overlapping_def
  proof (rule filter_cong[OF refl])
    fix ev assume "ev \<in> set (map box_event boxes)"
    then have X: "sameSeconds secs ev" using assms(3) by auto
    show "(eid ev \<noteq> eid (box_event b) \<and>
         (js_ge (startTime ev) (startTime (box_event b)) \<and> js_lt (startTime ev) (endTime (box_event b)) \<or>
          js_gt (endTime ev) (startTime (box_event b)) \<and> js_le (endTime ev) (endTime (box_event b)) \<or>
          js_le (startTime ev) (startTime (box_event b)) \<and> js_ge (endTime ev) (endTime (box_event b)))) =
        (eid ev \<noteq> eid (box_event b) \<and>
         spec_overlap (minutesSinceMidnight (startTime ev)) (minutesSinceMidnight (endTime ev))
          (minutesSinceMidnight (startTime (box_event b))) (minutesSinceMidnight (endTime (box_event b))))"
      using same_seconds_three_way[of "startTime ev" "endTime ev" "startTime (box_event b)"
          "endTime (box_event b)" secs] X E
      by (simp add: sameSeconds_def)
  qed
  then show ?thesis using renderDay_overlapping(1)[OF assms(1,2)] by simp
qed

text \<open>An instance of C1.\<close>

theorem overlap_same_seconds_witness:
  "renderDay False (js ''07:00'') (js ''16:00'')
     [event 1 ''08:00:00'' ''09:00:00'', event 2 ''08:30:00'' ''09:30:00'', event 3 ''09:00:00'' ''10:00:00'']
     = Some [box (event 1 ''08:00:00'' ''09:00:00'') (100 / 9) (100 / 9) [event 2 ''08:30:00'' ''09:30:00''],
             box (event 2 ''08:30:00'' ''09:30:00'') (50 / 3) (100 / 9)
               [event 1 ''08:00:00'' ''09:00:00'', event 3 ''09:00:00'' ''10:00:00''],
             box (event 3 ''09:00:00'' ''10:00:00'') (200 / 9) (100 / 9) [event 2 ''08:30:00'' ''09:30:00'']] \<and>
   spec_overlapping (event 1 ''08:00:00'' ''09:00:00'')
     [event 1 ''08:00:00'' ''09:00:00'', event 2 ''08:30:00'' ''09:30:00'', event 3 ''09:00:00'' ''10:00:00'']
     = [event 2 ''08:30:00'' ''09:30:00'']"
proof -
  let ?e1 = "event 1 ''08:00:00'' ''09:00:00''" and ?e2 = "event 2 ''08:30:00'' ''09:30:00''"
    and ?e3 = "event 3 ''09:00:00'' ''10:00:00''"
  let ?b1 = "box ?e1 (100 / 9) (100 / 9) [?e2]"
  let ?b2 = "box ?e2 (50 / 3) (100 / 9) [?e1, ?e3]"
  let ?b3 = "box ?e3 (200 / 9) (100 / 9) [?e2]"
  have r: "renderDay False (js ''07:00'') (js ''16:00'') [?e1, ?e2, ?e3] = Some [?b1, ?b2, ?b3]"
    by (simp add: eval_simps box_def)
  have m: "?b1 \<in> set [?b1, ?b2, ?b3]" by simp
  have h: "\<forall>ev \<in> set (map box_event [?b1, ?b2, ?b3]). sameSeconds (js '':00'') ev"
    by (simp add: ev_simps box_def sameSeconds_def)
  show ?thesis
    using overlap_same_seconds [OF r m h] r by (simp add: box_def)
qed

text \<open>
  C5. For times in the format \<open>HH:MM[:SS]\<close>, the events drawn in a day column are
  exactly the events of the day whose start and whose end minute value both lie in the
  window, bounds included, in their order and unchanged: an event is drawn whole or
  not at all. So an event from the window's start to the window's end is drawn, and one
  that ends a minute after the window's end is not.
\<close>

theorem visibility_window:
  assumes "wellFormedTime ws" "wellFormedTime we" "list_all wellFormedEvent dayEvents"
  shows "\<exists>boxes. renderDay compactMode ws we dayEvents = Some boxes \<and>
           map box_event boxes =
             filter (\<lambda>ev. inWindow ws we (startTime ev) \<and> inWindow ws we (endTime ev)) dayEvents \<and>
           (\<forall>ev \<in> set dayEvents.
              (startTime ev = ws \<and> endTime ev = we \<and>
               minutesSinceMidnight ws \<le> minutesSinceMidnight we
                 \<longrightarrow> ev \<in> set (map box_event boxes)) \<and>
              (minutesSinceMidnight (endTime ev) = minutesSinceMidnight we + 1
                 \<longrightarrow> ev \<notin> set (map box_event boxes)))"
proof -
  from assms obtain boxes where r: "renderDay compactMode ws we dayEvents = Some boxes"
    using renderDay_wf by blast
  have "filter (\<lambda>ev. isEventVisible ws we ev = Some True) dayEvents =
        filter (\<lambda>ev. inWindow ws we (startTime ev) \<and> inWindow ws we (endTime ev)) dayEvents"
    using assms by (intro filter_cong) (auto simp: list_all_iff isEventVisible_wf wellFormedEvent_def)
  with renderDay_events[OF r]
  have m: "map box_event boxes =
      filter (\<lambda>ev. inWindow ws we (startTime ev) \<and> inWindow ws we (endTime ev)) dayEvents"
    by simp
  have "ev \<in> set (map box_event boxes)"
    if "ev \<in> set dayEvents" "startTime ev = ws" "endTime ev = we"
      "minutesSinceMidnight ws \<le> minutesSinceMidnight we" for ev
    unfolding m using that by (simp add: inWindow_def)
  moreover have "ev \<notin> set (map box_event boxes)"
    if "minutesSinceMidnight (endTime ev) = minutesSinceMidnight we + 1" for ev
    unfolding m using that by (simp add: inWindow_def)
  ultimately show ?thesis using r m by blast
qed

text \<open>An instance of C5.\<close>

theorem visibility_window_witness:
  "\<exists>boxes. renderDay False (js ''07:00'') (js ''16:00'')
              [event 1 ''07:00'' ''16:00'', event 2 ''15:00'' ''16:01'', event 3 ''06:59'' ''08:00'']
              = Some boxes \<and>
           map box_event boxes = [event 1 ''07:00'' ''16:00''] \<and>
           event 1 ''07:00'' ''16:00'' \<in> set (map box_event boxes) \<and>
           event 2 ''15:00'' ''16:01'' \<notin> set (map box_event boxes)"
  using visibility_window [of "js ''07:00''" "js ''16:00''"
     "[event 1 ''07:00'' ''16:00'', event 2 ''15:00'' ''16:01'', event 3 ''06:59'' ''08:00'']" False]
  by (simp add: ev_simps)

text \<open>
  C6. For every drawn event, \<open>top\<close> is the event's start minus the window's start, over
  the window's length, times 100, and \<open>height\<close> is the larger of the event's length
  over the window's length times 100 and the floor, 8 in compact mode and 10 otherwise.
  The first two conjuncts state this in the arithmetic of JavaScript numbers, for every
  window; the third in exact rationals, for a window of positive length.
\<close>

theorem position_mapping:
  assumes "wellFormedTime ws" "wellFormedTime we" "list_all wellFormedEvent dayEvents"
    and "renderDay compactMode ws we dayEvents = Some boxes" "b \<in> set boxes"
  shows "box_top b =
           js_times (js_divide
               (Fin (of_int (int (minutesSinceMidnight (startTime (box_event b))) - int (minutesSinceMidnight ws))))
               (Fin (of_int (int (minutesSinceMidnight we) - int (minutesSinceMidnight ws))))) (Fin 100) \<and>
         box_height b =
           Math_max (js_times (js_divide
               (Fin (of_int (int (minutesSinceMidnight (endTime (box_event b))) -
                             int (minutesSinceMidnight (startTime (box_event b))))))
               (Fin (of_int (int (minutesSinceMidnight we) - int (minutesSinceMidnight ws))))) (Fin 100))
             (if compactMode then Fin 8 else Fin 10) \<and>
         (minutesSinceMidnight ws < minutesSinceMidnight we \<longrightarrow>
            box_top b = Fin (spec_top_percent (minutesSinceMidnight (startTime (box_event b)))
                               (minutesSinceMidnight ws) (minutesSinceMidnight we)) \<and>
            box_height b = Fin (max (spec_height_percent (minutesSinceMidnight (startTime (box_event b)))
                               (minutesSinceMidnight (endTime (box_event b)))
                               (minutesSinceMidnight ws) (minutesSinceMidnight we))
                             (if compactMode then 8 else 10)))"
proof -
  from assms(4,5) obtain vis ev where v: "visibleEvents ws we dayEvents = Some vis"
    and ev: "ev \<in> set vis" and bx: "eventBox compactMode ws we vis ev = Some b"
    by (rule renderDay_box)
  have "ev \<in> set dayEvents" using visibleEvents_subset[OF v] ev by blast
  then have wf: "wellFormedTime (startTime ev)" "wellFormedTime (endTime ev)"
    using assms(3) by (auto simp: list_all_iff wellFormedEvent_def)
  have be: "box_event b = ev" using bx by (rule eventBox_event)
  have t: "box_top b = js_times (js_divide
               (Fin (of_int (int (minutesSinceMidnight (startTime ev)) - int (minutesSinceMidnight ws))))
               (Fin (of_int (int (minutesSinceMidnight we) - int (minutesSinceMidnight ws))))) (Fin 100)"
    using bx by (auto simp: eventBox_def timeToPosition_wf[OF wf(1) assms(1,2)]
        calculateHeight_wf[OF wf assms(1,2)])
  have h: "box_height b = Math_max (js_times (js_divide
               (Fin (of_int (int (minutesSinceMidnight (endTime ev)) - int (minutesSinceMidnight (startTime ev)))))
               (Fin (of_int (int (minutesSinceMidnight we) - int (minutesSinceMidnight ws))))) (Fin 100))
             (if compactMode then Fin 8 else Fin 10)"
    using bx by (auto simp: eventBox_def timeToPosition_wf[OF wf(1) assms(1,2)]
        calculateHeight_wf[OF wf assms(1,2)])
  have "box_top b = Fin (spec_top_percent (minutesSinceMidnight (startTime ev))
                               (minutesSinceMidnight ws) (minutesSinceMidnight we)) \<and>
        box_height b = Fin (max (spec_height_percent (minutesSinceMidnight (startTime ev))
                               (minutesSinceMidnight (endTime ev))
                               (minutesSinceMidnight ws) (minutesSinceMidnight we))
                             (if compactMode then 8 else 10))"
    if lt: "minutesSinceMidnight ws < minutesSinceMidnight we"
  proof -
    have nz: "(of_int (int (minutesSinceMidnight we) - int (minutesSinceMidnight ws)) :: rat) \<noteq> 0"
      using lt by simp
    show ?thesis
      unfolding t h percent_Fin[OF nz] spec_top_percent_def spec_height_percent_def
      by (simp only: Math_max_Fin if_distrib[of Fin, symmetric] split: if_splits) 
  qed
  with t h be show ?thesis by simp
qed

text \<open>An instance of C6.\<close>

theorem position_mapping_witness:
  "renderDay False (js ''07:00'') (js ''16:00'') [event 1 ''08:00'' ''09:00'']
     = Some [box (event 1 ''08:00'' ''09:00'') (100 / 9) (100 / 9) []] \<and>
   minutesSinceMidnight (js ''07:00'') < minutesSinceMidnight (js ''16:00'') \<and>
   box_top (box (event 1 ''08:00'' ''09:00'') (100 / 9) (100 / 9) []) = Fin (spec_top_percent 480 420 960) \<and>
   box_height (box (event 1 ''08:00'' ''09:00'') (100 / 9) (100 / 9) [])
     = Fin (max (spec_height_percent 480 540 420 960) 10)"
proof -
  have w: "wellFormedTime (js ''07:00'')" "wellFormedTime (js ''16:00'')"
      "list_all wellFormedEvent [event 1 ''08:00'' ''09:00'']"
    by (simp_all add: ev_simps)
  have r: "renderDay False (js ''07:00'') (js ''16:00'') [event 1 ''08:00'' ''09:00'']
     = Some [box (event 1 ''08:00'' ''09:00'') (100 / 9) (100 / 9) []]"
    by (simp add: eval_simps box_def)
  have m: "box (event 1 ''08:00'' ''09:00'') (100 / 9) (100 / 9) []
             \<in> set [box (event 1 ''08:00'' ''09:00'') (100 / 9) (100 / 9) []]"
    by simp
  have lt: "minutesSinceMidnight (js ''07:00'') < minutesSinceMidnight (js ''16:00'')"
    by (simp add: ev_simps)
  have v: "minutesSinceMidnight (js ''07:00'') = 420" "minutesSinceMidnight (js ''16:00'') = 960"
    "minutesSinceMidnight (startTime (event 1 ''08:00'' ''09:00'')) = 480"
    "minutesSinceMidnight (endTime (event 1 ''08:00'' ''09:00'')) = 540"
    by (simp_all add: ev_simps)
  show ?thesis
    using position_mapping [OF w r m] lt r v by (simp add: box_def)
qed

text \<open>
  C7. For two drawn events A and B of the same day column, each with \<open>startTime < endTime\<close>
  (the comparison of the source, on the time strings), B is in the overlap list of A if
  and only if A is in the overlap list of B.
\<close>

theorem overlap_symmetric:
  assumes "renderDay compactMode ws we dayEvents = Some boxes" "a \<in> set boxes" "b \<in> set boxes"
    and "js_lt (startTime (box_event a)) (endTime (box_event a))"
    and "js_lt (startTime (box_event b)) (endTime (box_event b))"
  shows "box_event b \<in> set (box_overlapping a) \<longleftrightarrow> box_event a \<in> set (box_overlapping b)"
proof -
  let ?A = "box_event a" and ?B = "box_event b" and ?vis = "map box_event boxes"
  have mem: "?A \<in> set ?vis" "?B \<in> set ?vis" using assms(2,3) by simp_all
  have "?B \<in> set (box_overlapping a) \<longleftrightarrow>
        eid ?B \<noteq> eid ?A \<and> js_lt (startTime ?B) (endTime ?A) \<and> js_lt (startTime ?A) (endTime ?B)"
    unfolding renderDay_overlapping(1)[OF assms(1,2)] findOverlappingEvents_mem
    using mem three_way_intervals[OF assms(5,4)] by simp
  moreover have "?A \<in> set (box_overlapping b) \<longleftrightarrow>
        eid ?A \<noteq> eid ?B \<and> js_lt (startTime ?A) (endTime ?B) \<and> js_lt (startTime ?B) (endTime ?A)"
    unfolding renderDay_overlapping(1)[OF assms(1,3)] findOverlappingEvents_mem
    using mem three_way_intervals[OF assms(4,5)] by simp
  ultimately show ?thesis by auto
qed

text \<open>An instance of C7.\<close>

theorem overlap_symmetric_witness:
  "renderDay False (js ''07:00'') (js ''16:00'') [event 1 ''08:00'' ''09:00'', event 2 ''08:30'' ''09:30'']
     = Some [box (event 1 ''08:00'' ''09:00'') (100 / 9) (100 / 9) [event 2 ''08:30'' ''09:30''],
             box (event 2 ''08:30'' ''09:30'') (50 / 3) (100 / 9) [event 1 ''08:00'' ''09:00'']] \<and>
   js_lt (js ''08:00'') (js ''09:00'') \<and> js_lt (js ''08:30'') (js ''09:30'') \<and>
   (box_event (box (event 2 ''08:30'' ''09:30'') (50 / 3) (100 / 9) [event 1 ''08:00'' ''09:00''])
      \<in> set (box_overlapping
                (box (event 1 ''08:00'' ''09:00'') (100 / 9) (100 / 9) [event 2 ''08:30'' ''09:30'']))
    \<longleftrightarrow>
    box_event (box (event 1 ''08:00'' ''09:00'') (100 / 9) (100 / 9) [event 2 ''08:30'' ''09:30''])
      \<in> set (box_overlapping
                (box (event 2 ''08:30'' ''09:30'') (50 / 3) (100 / 9) [event 1 ''08:00'' ''09:00''])))"
proof -
  let ?b1 = "box (event 1 ''08:00'' ''09:00'') (100 / 9) (100 / 9) [event 2 ''08:30'' ''09:30'']"
  let ?b2 = "box (event 2 ''08:30'' ''09:30'') (50 / 3) (100 / 9) [event 1 ''08:00'' ''09:00'']"
  have r: "renderDay False (js ''07:00'') (js ''16:00'')
             [event 1 ''08:00'' ''09:00'', event 2 ''08:30'' ''09:30''] = Some [?b1, ?b2]"
    by (simp add: eval_simps box_def)
  have m: "?b1 \<in> set [?b1, ?b2]" "?b2 \<in> set [?b1, ?b2]" by simp_all
  have l: "js_lt (startTime (box_event ?b1)) (endTime (box_event ?b1))"
    "js_lt (startTime (box_event ?b2)) (endTime (box_event ?b2))"
    by (simp_all add: box_def event_def js_def)
  have l': "js_lt (js ''08:00'') (js ''09:00'')" "js_lt (js ''08:30'') (js ''09:30'')"
    by (simp_all add: js_def)
  show ?thesis
    using overlap_symmetric [OF r m l] r l' by simp
qed

text \<open>
  C8. For a window of positive length and two events with well-formed times, if A starts
  before it ends and ends no later than B starts (in minutes), the \<open>top\<close> computed for A
  is strictly less than the \<open>top\<close> computed for B.
\<close>

theorem top_monotone:
  assumes "wellFormedTime ws" "wellFormedTime we" "wellFormedEvent A" "wellFormedEvent B"
    and "minutesSinceMidnight ws < minutesSinceMidnight we"
    and "minutesSinceMidnight (startTime A) < minutesSinceMidnight (endTime A)"
    and "minutesSinceMidnight (endTime A) \<le> minutesSinceMidnight (startTime B)"
  shows "\<exists>ta tb. timeToPosition (startTime A) ws we = Some ta \<and>
                 timeToPosition (startTime B) ws we = Some tb \<and> js_less ta tb"
proof -
  have nz: "(of_int (int (minutesSinceMidnight we) - int (minutesSinceMidnight ws)) :: rat) \<noteq> 0"
    and pos: "(of_int (int (minutesSinceMidnight we) - int (minutesSinceMidnight ws)) :: rat) > 0"
    using assms(5) by simp_all
  have lt: "minutesSinceMidnight (startTime A) < minutesSinceMidnight (startTime B)"
    using assms(6,7) by simp
  have a: "timeToPosition (startTime A) ws we = Some (Fin (spec_top_percent
             (minutesSinceMidnight (startTime A)) (minutesSinceMidnight ws) (minutesSinceMidnight we)))"
    using assms(1-3) by (simp only: timeToPosition_wf wellFormedEvent_def percent_Fin[OF nz] spec_top_percent_def)
  have b: "timeToPosition (startTime B) ws we = Some (Fin (spec_top_percent
             (minutesSinceMidnight (startTime B)) (minutesSinceMidnight ws) (minutesSinceMidnight we)))"
    using assms(1,2,4) by (simp only: timeToPosition_wf wellFormedEvent_def percent_Fin[OF nz] spec_top_percent_def)
  have "spec_top_percent (minutesSinceMidnight (startTime A)) (minutesSinceMidnight ws) (minutesSinceMidnight we)
      < spec_top_percent (minutesSinceMidnight (startTime B)) (minutesSinceMidnight ws) (minutesSinceMidnight we)"
    unfolding spec_top_percent_def using lt pos
    by (simp add: divide_strict_right_mono)
  with a b show ?thesis by simp
qed

text \<open>An instance of C8.\<close>

theorem top_monotone_witness:
  "\<exists>ta tb. timeToPosition (js ''08:00'') (js ''07:00'') (js ''16:00'') = Some ta \<and>
           timeToPosition (js ''09:00'') (js ''07:00'') (js ''16:00'') = Some tb \<and> js_less ta tb"
  using top_monotone [of "js ''07:00''" "js ''16:00''" "event 1 ''08:00'' ''09:00''"
      "event 2 ''09:00'' ''10:00''"]
  by (simp add: ev_simps)

text \<open>
  C10 as stated fails for a window of length zero: an event that starts and ends at the
  one minute of the window is drawn, its computed height is \<open>0 / 0\<close>, and \<open>Math.max\<close> of
  that and the floor is \<open>NaN\<close>, which is neither the floor nor above it.
\<close>

theorem height_nan_counterexample:
  "calculateHeight (js ''08:00'') (js ''08:00'') (js ''08:00'') (js ''08:00'') = Some NaN \<and>
   renderDay False (js ''08:00'') (js ''08:00'') [event 1 ''08:00'' ''08:00'']
     = Some [\<lparr> box_event = event 1 ''08:00'' ''08:00'', box_top = NaN, box_height = NaN,
                box_overlapping = [] \<rparr>] \<and>
   NaN \<noteq> Fin 10 \<and> \<not> js_less (Fin 10) NaN"
  by (simp add: eval_simps)

text \<open>
  C10, amended. In a window whose two ends differ in their minute values, every drawn
  event has a computed height that is a number, and the height applied is the larger of
  that number and the floor (8 in compact mode, 10 otherwise): it is a number, at least
  the floor and positive, and it is the floor itself for an event whose end is not
  after its start.
\<close>

theorem height_floor:
  assumes "renderDay compactMode ws we dayEvents = Some boxes" "b \<in> set boxes"
    and "minutesOf ws \<noteq> minutesOf we"
  shows "\<exists>h r. calculateHeight (startTime (box_event b)) (endTime (box_event b)) ws we = Some (Fin h) \<and>
               box_height b = Fin r \<and>
               r = max h (if compactMode then 8 else 10) \<and>
               (if compactMode then 8 else 10) \<le> r \<and> 0 < r \<and>
               (\<forall>s t. minutesOf (startTime (box_event b)) = Some s \<and>
                      minutesOf (endTime (box_event b)) = Some t \<and> t \<le> s
                      \<longrightarrow> r = (if compactMode then 8 else 10))"
proof -
  from assms(1,2) obtain vis ev where v: "visibleEvents ws we dayEvents = Some vis"
    and m: "ev \<in> set vis" and bx: "eventBox compactMode ws we vis ev = Some b"
    by (rule renderDay_box)
  from bx obtain h0 where h0: "calculateHeight (startTime ev) (endTime ev) ws we = Some h0"
    and bh: "box_height b = Math_max h0 (if compactMode then Fin 8 else Fin 10)"
    and be: "box_event b = ev"
    by (auto simp: eventBox_def split: option.splits)
  from calculateHeight_minutesOf[OF h0] obtain s t c d where
    ms: "minutesOf (startTime ev) = Some s" and mt: "minutesOf (endTime ev) = Some t"
    and mc: "minutesOf ws = Some c" and md: "minutesOf we = Some d"
    and hv: "h0 = js_times (js_divide (Fin (of_int (int t - int s))) (Fin (of_int (int d - int c)))) (Fin 100)"
    by blast
  from visibleEvents_Some[OF v] m have "isEventVisible ws we ev = Some True" by simp
  then have "isTimeInRange (startTime ev) ws we = Some True" by (rule isEventVisible_True)
  from isTimeInRange_minutesOf[OF this] ms mc md have "c \<le> d" by simp
  with assms(3) mc md have cd: "c < d" by simp
  define h :: rat where "h = of_int (int t - int s) / of_int (int d - int c) * 100"
  define f :: rat where "f = (if compactMode then 8 else 10)"
  have tot: "(of_int (int d - int c) :: rat) \<noteq> 0" using cd by simp
  have hf: "h0 = Fin h" unfolding hv h_def by (rule percent_Fin[OF tot])
  have fpos: "0 < f" by (simp add: f_def)
  have bf: "box_height b = Fin (max h f)"
    using bh hf by (simp add: f_def Math_max_Fin)
  have neg: "h \<le> 0" if "t \<le> s"
  proof -
    have "(of_int (int t - int s) :: rat) \<le> 0" using that by simp
    moreover have "(0 :: rat) < of_int (int d - int c)" using cd by simp
    ultimately have "(of_int (int t - int s) :: rat) / of_int (int d - int c) \<le> 0"
      by (rule divide_nonpos_pos)
    then show ?thesis unfolding h_def by (rule mult_nonpos_nonneg) simp
  qed
  have "calculateHeight (startTime (box_event b)) (endTime (box_event b)) ws we = Some (Fin h)"
    using h0 hf be by simp
  moreover have "box_height b = Fin (max h f)" by (rule bf)
  moreover have "f \<le> max h f" by simp
  moreover have "0 < max h f" using fpos by (simp add: less_max_iff_disj)
  moreover have "\<forall>s' t'. minutesOf (startTime (box_event b)) = Some s' \<and>
                      minutesOf (endTime (box_event b)) = Some t' \<and> t' \<le> s' \<longrightarrow> max h f = f"
    using ms mt be neg fpos by (auto simp: max_def)
  ultimately show ?thesis unfolding f_def by blast
qed

text \<open>
  Two instances of C10 in compact mode: an event that ends before it starts is drawn
  with the floor, an event of one hour in a window of nine with its computed height.
\<close>

theorem height_floor_witness:
  "renderDay True (js ''07:00'') (js ''16:00'') [event 1 ''09:00'' ''08:00'']
     = Some [box (event 1 ''09:00'' ''08:00'') (200 / 9) 8 []] \<and>
   minutesOf (js ''07:00'') \<noteq> minutesOf (js ''16:00'') \<and>
   minutesOf (js ''09:00'') = Some 540 \<and> minutesOf (js ''08:00'') = Some 480 \<and>
   calculateHeight (js ''09:00'') (js ''08:00'') (js ''07:00'') (js ''16:00'') = Some (Fin (- 100 / 9)) \<and>
   box_height (box (event 1 ''09:00'' ''08:00'') (200 / 9) 8 []) = Fin 8 \<and>
   renderDay True (js ''07:00'') (js ''16:00'') [event 2 ''08:00'' ''09:00'']
     = Some [box (event 2 ''08:00'' ''09:00'') (100 / 9) (100 / 9) []] \<and>
   calculateHeight (js ''08:00'') (js ''09:00'') (js ''07:00'') (js ''16:00'') = Some (Fin (100 / 9)) \<and>
   box_height (box (event 2 ''08:00'' ''09:00'') (100 / 9) (100 / 9) []) = Fin (max (100 / 9) 8)"
proof -
  let ?b1 = "box (event 1 ''09:00'' ''08:00'') (200 / 9) 8 []"
  let ?b2 = "box (event 2 ''08:00'' ''09:00'') (100 / 9) (100 / 9) []"
  have r1: "renderDay True (js ''07:00'') (js ''16:00'') [event 1 ''09:00'' ''08:00''] = Some [?b1]"
    by (simp add: eval_simps box_def)
  have r2: "renderDay True (js ''07:00'') (js ''16:00'') [event 2 ''08:00'' ''09:00''] = Some [?b2]"
    by (simp add: eval_simps box_def)
  have m1: "?b1 \<in> set [?b1]" and m2: "?b2 \<in> set [?b2]" by simp_all
  have w: "minutesOf (js ''07:00'') \<noteq> minutesOf (js ''16:00'')"
    by (simp add: minutesOf_def hoursMinutes_def Number_def digits_value_def js_def is_digit_def)
  have n: "minutesOf (js ''09:00'') = Some 540" "minutesOf (js ''08:00'') = Some 480"
    by (simp_all add: minutesOf_def hoursMinutes_def Number_def digits_value_def js_def is_digit_def)
  have e: "startTime (box_event ?b1) = js ''09:00''" "endTime (box_event ?b1) = js ''08:00''"
    "startTime (box_event ?b2) = js ''08:00''" "endTime (box_event ?b2) = js ''09:00''"
    by (simp_all add: box_def event_def)
  from height_floor [OF r1 m1 w] n
  have 1: "calculateHeight (js ''09:00'') (js ''08:00'') (js ''07:00'') (js ''16:00'') = Some (Fin (- 100 / 9)) \<and>
           box_height ?b1 = Fin 8"
    unfolding e by (auto simp: eval_simps box_def)
  from height_floor [OF r2 m2 w]
  have 2: "calculateHeight (js ''08:00'') (js ''09:00'') (js ''07:00'') (js ''16:00'') = Some (Fin (100 / 9)) \<and>
           box_height ?b2 = Fin (max (100 / 9) 8)"
    unfolding e by (auto simp: eval_simps box_def)
  from r1 r2 w n 1 2 show ?thesis by simp
qed

section \<open>Properties of the editor\<close>

subsection \<open>Auxiliary facts\<close>

lemma arabicRegex_test_iff: "arabicRegex_test s \<longleftrightarrow> (\<exists>c \<in> set s. arabicCodeUnit c)"
  by (simp add: arabicRegex_test_def arabicCodeUnit_def list_ex_iff)

lemma handleChange_childNodes [simp]: "childNodes (handleChange st) = childNodes st"
  by (simp add: handleChange_def Let_def)

lemma handleChange_console [simp]: "console (handleChange st) = console st"
  by (simp add: handleChange_def Let_def)

lemma handleChange_selection [simp]: "selection (handleChange st) = selection st"
  by (simp add: handleChange_def Let_def)

lemma insertOrAppend_console [simp]: "console (insertOrAppend e html st) = console st"
  by (auto simp: insertOrAppend_def insertAtSelection_def Let_def
      split: selection.splits list.splits sum.splits prod.splits)

lemmas host_simps = exampleHost_def editorWith_def js_def linkHTML_def imgHTML_def
  processedLinkUrl_def processedImageUrl_def exampleLink_def exampleImage_def

lemma node_at_snoc:
  "node_at cs (g @ [i]) = Some n \<longleftrightarrow>
     (\<exists>ds. children_at cs g = Some ds \<and> i < length ds \<and> ds ! i = n)"
proof (induction g arbitrary: cs)
  case Nil
  then show ?case by auto
next
  case (Cons j g)
  then show ?case by (auto split: node.splits)
qed

lemma node_at_Element:
  "g \<noteq> [] \<Longrightarrow> (\<exists>t as. node_at cs g = Some (Element t as ds)) \<longleftrightarrow> children_at cs g = Some ds"
proof (induction g arbitrary: cs)
  case Nil
  then show ?case by simp
next
  case (Cons j g)
  show ?case
  proof (cases "g = []")
    case True
    then show ?thesis by (auto split: node.splits)
  next
    case False
    then show ?thesis using Cons.IH by (auto split: node.splits)
  qed
qed

lemma children_at_modify:
  "children_at cs g = Some ds \<Longrightarrow> children_at (modify_children g f cs) g = Some (f ds)"
proof (induction g arbitrary: cs)
  case Nil
  then show ?case by simp
next
  case (Cons j g)
  then show ?case by (auto split: node.splits if_splits)
qed

lemma modify_children_twice:
  "modify_children g f (modify_children g h cs) = modify_children g (f \<circ> h) cs"
proof (induction g arbitrary: cs)
  case Nil
  then show ?case by simp
next
  case (Cons j g)
  then show ?case by (auto split: node.splits)
qed

lemma modify_children_cong:
  "children_at cs g = Some ds \<Longrightarrow> f ds = h ds \<Longrightarrow> modify_children g f cs = modify_children g h cs"
proof (induction g arbitrary: cs)
  case Nil
  then show ?case by simp
next
  case (Cons j g)
  then show ?case by (auto split: node.splits if_splits)
qed

lemma node_at_parent_tag_modify:
  assumes "g \<noteq> []" "node_at cs g = Some (Element t as ds)"
  shows "node_at (modify_children g f cs) g = Some (Element t as (f ds))"
  using assms
proof (induction g arbitrary: cs)
  case Nil
  then show ?case by simp
next
  case (Cons j g)
  show ?case
  proof (cases "g = []")
    case True
    then show ?thesis using Cons.prems by (auto split: node.splits if_splits)
  next
    case False
    then show ?thesis using Cons.prems Cons.IH by (auto split: node.splits if_splits)
  qed
qed

lemma serialize_modify_children:
  assumes "children_at cs g = Some ds"
    and "\<And>raw. concat (map (serialize raw) (f ds)) = concat (map (serialize raw) ds)"
  shows "concat (map (serialize raw) (modify_children g f cs)) = concat (map (serialize raw) cs)"
  using assms(1)
proof (induction g arbitrary: cs raw)
  case Nil
  then show ?case using assms(2) by simp
next
  case (Cons j g)
  from Cons.prems obtain t as es where j: "j < length cs" and e: "cs ! j = Element t as es"
    and c: "children_at es g = Some ds"
    by (auto split: node.splits if_splits)
  have "serialize raw (Element t as (modify_children g f es)) = serialize raw (Element t as es)"
    using Cons.IH[OF c] by simp
  then have "map (serialize raw) (cs[j := Element t as (modify_children g f es)]) = map (serialize raw) cs"
    using j e by (metis list_update_id map_update)
  then show ?case using j e by simp
qed

lemma handleChange_mounted [simp]: "mounted (handleChange st) = mounted st"
  by (simp add: handleChange_def Let_def)

lemma escapeText_Nil [simp]: "escapeText [] = []"
  by (simp add: escapeText_def)

lemma serialize_empty_text [simp]: "serialize raw (Text []) = []"
  by simp

lemma parentElementTag_snoc:
  assumes "node_at cs q = Some (Element t as ds)"
  shows "parentElementTag cs (q @ [i]) = Some t"
proof -
  have "q \<noteq> []" using assms by (cases q) auto
  then have "\<not> length (q @ [i]) \<le> 1" by (cases q) auto
  then show ?thesis using assms by (simp add: parentElementTag_def)
qed

lemma parentElementTag_modify:
  assumes "children_at cs (butlast q) = Some ds"
  shows "parentElementTag (modify_children (butlast q) f cs) q = parentElementTag cs q"
proof (cases "length q \<le> 1")
  case True
  then show ?thesis by (simp add: parentElementTag_def)
next
  case False
  then have ne: "butlast q \<noteq> []" by (cases q rule: rev_cases) auto
  from assms obtain t as where n: "node_at cs (butlast q) = Some (Element t as ds)"
    using node_at_Element[OF ne] by blast
  from node_at_parent_tag_modify[OF ne n]
  have "node_at (modify_children (butlast q) f cs) (butlast q) = Some (Element t as (f ds))" .
  with n False show ?thesis by (simp add: parentElementTag_def)
qed

lemmas toggle_simps = wrapSelectionWithTag_def thenToggle_def reselect_def outcome_def
  editorWith_def parentElementTag_def unwrapElement_def extractContents_def insertNode_def
  modify_node_def slice_def cut_def innerHTML_def serializeAttribute_def escapeAttribute_def
  escapeText_def voidElements_def rawTextElements_def handleChange_def js_def Let_def

lemma modify_children_id: "modify_children g (\<lambda>ds. ds) cs = cs"
proof (induction g arbitrary: cs)
  case Nil
  then show ?case by simp
next
  case (Cons j g)
  then show ?case by (auto split: node.splits) (metis list_update_id)
qed

lemma modify_children_snoc:
  "modify_children (g @ [i]) f cs =
     modify_children g
       (\<lambda>ds. if i < length ds
             then (case ds ! i of Element t as es \<Rightarrow> ds[i := Element t as (f es)] | _ \<Rightarrow> ds)
             else ds) cs"
proof (induction g arbitrary: cs)
  case Nil
  then show ?case by (auto split: node.splits)
next
  case (Cons j g)
  then show ?case by (auto split: node.splits)
qed

lemma node_at_modify_node:
  assumes "node_at cs c = Some n"
  shows "node_at (modify_node c f cs) c = Some (f n)"
proof -
  let ?g = "butlast c" and ?i = "last c"
  let ?F = "\<lambda>ds. if ?i < length ds then ds[?i := f (ds ! ?i)] else ds"
  from assms have ne: "c \<noteq> []" by (cases c) auto
  then have c: "?g @ [?i] = c" by simp
  from assms have "node_at cs (?g @ [?i]) = Some n" by (simp only: c)
  then obtain ds where ds: "children_at cs ?g = Some ds" "?i < length ds" "ds ! ?i = n"
    by (auto simp only: node_at_snoc)
  have "children_at (modify_children ?g ?F cs) ?g = Some (?F ds)"
    using ds(1) by (rule children_at_modify)
  then have "node_at (modify_children ?g ?F cs) (?g @ [?i]) = Some (f n)"
    using ds(2,3) by (simp only: node_at_snoc) simp
  then have "node_at (modify_children ?g ?F cs) c = Some (f n)" by (simp only: c)
  then show ?thesis using ne by (simp add: modify_node_def)
qed

lemma justify_not_list:
  assumes "startsWith command (js ''justify'')"
  shows "command \<noteq> js ''insertOrderedList''" "command \<noteq> js ''insertUnorderedList''"
  using assms by (auto simp: startsWith_def js_def)

subsection \<open>The claims about the editor\<close>

text \<open>
  C2 as stated fails: \<open>wrapSelectionWithTag\<close> has no handler. With the caret in a comment
  node \<open>range.insertNode\<close> throws, and the exception leaves the function.
\<close>

theorem toggle_throw_counterexample:
  "wrapSelectionWithTag Strong (editorWith [Comment (js ''note'')] (Within [0] 0 0))
     = Inl (HierarchyRequestError, editorWith [Comment (js ''note'')] (Within [0] 0 0))"
  by (simp add: wrapSelectionWithTag_def editorWith_def parentElementTag_def insertNode_def js_def)

text \<open>
  C2, amended. Link and image insertion catch an exception thrown by the insertion at the
  selection and append the HTML to the end of the document instead; nothing is written
  to the console, and the function returns normally. The toggle-wrap commands and
  \<open>applyFormat\<close> have no handler: an exception thrown by \<open>range.insertNode\<close> or by
  \<open>document.execCommand\<close> leaves the function, with the state as it was at the throw.
  For a toggle-wrap with a collapsed range that is the state before the call; with a
  range that is not collapsed the selected content has been taken out of the document
  by then, as in a comment node, where \<open>range.insertNode\<close> always throws. For
  \<open>applyFormat\<close> it is the state after \<open>focus()\<close> and the block given to an empty
  document.
\<close>

theorem exceptions_caught_or_not:
  "(mounted st \<and> linkUrl st \<noteq> [] \<and> linkText st \<noteq> [] \<and>
    insertAtSelection e (linkHTML (processedLinkUrl e st) (linkText st))
       (focusEditor e st) = Inl (x, st1)
    \<longrightarrow> childNodes (insertLink e st) =
          childNodes st1 @ parseHTML e (linkHTML (processedLinkUrl e st) (linkText st)) \<and>
        console (insertLink e st) = console st) \<and>
   (mounted st \<and> imageUrl st \<noteq> [] \<and>
    insertAtSelection e (imgHTML (processedImageUrl e st) (imageAlt st))
       (focusEditor e st) = Inl (x, st1)
    \<longrightarrow> childNodes (insertImage e st) =
          childNodes st1 @ parseHTML e (imgHTML (processedImageUrl e st) (imageAlt st)) \<and>
        console (insertImage e st) = console st) \<and>
   (mounted st \<and> selection st = Within c a a \<and>
    parentElementTag (childNodes st) c \<noteq> Some (tagName tag) \<and>
    insertNode (Element (tagName tag) [] [Text [8203]]) c a (childNodes st) = Inl x
    \<longrightarrow> wrapSelectionWithTag tag st = Inl (x, st)) \<and>
   (mounted st \<and> selection st = Within c a b \<and> a \<noteq> b \<and>
    parentElementTag (childNodes st) c \<noteq> Some (tagName tag) \<and>
    insertNode (Element (tagName tag) [] (fst (extractContents c a b (childNodes st)))) c a
      (snd (extractContents c a b (childNodes st))) = Inl x
    \<longrightarrow> wrapSelectionWithTag tag st =
          Inl (x, st\<lparr> childNodes := snd (extractContents c a b (childNodes st)),
                      selection := Within c a a \<rparr>)) \<and>
   (mounted st \<and> selection st = Within c a b \<and> a < b \<and>
    node_at (childNodes st) c = Some (Comment d) \<and>
    parentElementTag (childNodes st) c \<noteq> Some (tagName tag)
    \<longrightarrow> wrapSelectionWithTag tag st =
          Inl (HierarchyRequestError,
               st\<lparr> childNodes := modify_node c (\<lambda>_. Comment (cut a b d)) (childNodes st),
                   selection := Within c a a \<rparr>)) \<and>
   (mounted st \<and> \<not> disabled st \<and>
    execCommand e command val (childNodes (beforeExecCommand e command st),
                               selection (beforeExecCommand e command st)) = Inl x
    \<longrightarrow> applyFormat e command val st = Inl (x, beforeExecCommand e command st) \<and>
        hasFocus (beforeExecCommand e command st) \<and>
        (\<not> hasFocus st \<longrightarrow> \<not> editorIsEmpty (beforeExecCommand e command st)) \<and>
        (hasFocus st \<longrightarrow> editorIsEmpty (beforeExecCommand e command st) = editorIsEmpty st))"
proof (intro conjI impI)
  assume h: "mounted st \<and> linkUrl st \<noteq> [] \<and> linkText st \<noteq> [] \<and>
    insertAtSelection e (linkHTML (processedLinkUrl e st) (linkText st))
       (focusEditor e st) = Inl (x, st1)"
  then show "childNodes (insertLink e st) =
          childNodes st1 @ parseHTML e (linkHTML (processedLinkUrl e st) (linkText st))"
    by (simp add: insertLink_def insertOrAppend_def Let_def)
  from h show "console (insertLink e st) = console st"
    by (simp add: insertLink_def focusEditor_def Let_def)
next
  assume h: "mounted st \<and> imageUrl st \<noteq> [] \<and>
    insertAtSelection e (imgHTML (processedImageUrl e st) (imageAlt st))
       (focusEditor e st) = Inl (x, st1)"
  then show "childNodes (insertImage e st) =
          childNodes st1 @ parseHTML e (imgHTML (processedImageUrl e st) (imageAlt st))"
    by (simp add: insertImage_def insertOrAppend_def Let_def)
  from h show "console (insertImage e st) = console st"
    by (simp add: insertImage_def focusEditor_def Let_def)
next
  assume "mounted st \<and> selection st = Within c a a \<and>
    parentElementTag (childNodes st) c \<noteq> Some (tagName tag) \<and>
    insertNode (Element (tagName tag) [] [Text [8203]]) c a (childNodes st) = Inl x"
  then show "wrapSelectionWithTag tag st = Inl (x, st)"
    by (simp add: wrapSelectionWithTag_def)
next
  assume "mounted st \<and> selection st = Within c a b \<and> a \<noteq> b \<and>
    parentElementTag (childNodes st) c \<noteq> Some (tagName tag) \<and>
    insertNode (Element (tagName tag) [] (fst (extractContents c a b (childNodes st)))) c a
      (snd (extractContents c a b (childNodes st))) = Inl x"
  then show "wrapSelectionWithTag tag st =
          Inl (x, st\<lparr> childNodes := snd (extractContents c a b (childNodes st)),
                      selection := Within c a a \<rparr>)"
    by (simp add: wrapSelectionWithTag_def Let_def case_prod_beta)
next
  assume h: "mounted st \<and> selection st = Within c a b \<and> a < b \<and>
    node_at (childNodes st) c = Some (Comment d) \<and>
    parentElementTag (childNodes st) c \<noteq> Some (tagName tag)"
  let ?cs1 = "modify_node c (\<lambda>_. Comment (cut a b d)) (childNodes st)"
  from h have ne: "c \<noteq> []" by (cases c) auto
  from h ne have x: "extractContents c a b (childNodes st) = ([Comment (slice a b d)], ?cs1)"
    by (simp add: extractContents_def)
  from h have "node_at ?cs1 c = Some (Comment (cut a b d))"
    by (simp add: node_at_modify_node)
  with ne have i: "insertNode n c a ?cs1 = Inl HierarchyRequestError" for n
    by (simp add: insertNode_def)
  from h x i show "wrapSelectionWithTag tag st =
          Inl (HierarchyRequestError, st\<lparr> childNodes := ?cs1, selection := Within c a a \<rparr>)"
    by (simp add: wrapSelectionWithTag_def Let_def)
next
  assume h: "mounted st \<and> \<not> disabled st \<and>
    execCommand e command val (childNodes (beforeExecCommand e command st),
                               selection (beforeExecCommand e command st)) = Inl x"
  then show "applyFormat e command val st = Inl (x, beforeExecCommand e command st)"
    by (simp add: applyFormat_def Let_def)
  from h show "hasFocus (beforeExecCommand e command st)"
    by (simp add: beforeExecCommand_def focusEditor_def Let_def)
  show "\<not> editorIsEmpty (beforeExecCommand e command st)" if "\<not> hasFocus st"
    using h that by (simp add: beforeExecCommand_def focusEditor_def Let_def)
  show "editorIsEmpty (beforeExecCommand e command st) = editorIsEmpty st" if "hasFocus st"
    using that by (simp add: beforeExecCommand_def focusEditor_def Let_def)
qed

text \<open>
  Instances of C2: a link and an image for a range in a comment node, a toggle-wrap with
  the caret in a comment node and one with a range in it, and \<open>undo\<close> in an empty
  editor without the focus when \<open>document.execCommand\<close> throws.
\<close>

theorem exceptions_caught_or_not_witness:
  "childNodes (insertLink exampleHost
       ((editorWith [Comment (js ''abc'')] (Within [0] 1 2))\<lparr> linkUrl := js ''u'', linkText := js ''t'' \<rparr>))
     = [Comment (js ''ac''), exampleLink] \<and>
   childNodes (insertImage exampleHost
       ((editorWith [Comment (js ''abc'')] (Within [0] 1 2))\<lparr> imageUrl := js ''u'' \<rparr>))
     = [Comment (js ''ac''), exampleImage] \<and>
   wrapSelectionWithTag Em (editorWith [Text (js ''a''), Comment (js ''b'')] (Within [1] 1 1))
     = Inl (HierarchyRequestError, editorWith [Text (js ''a''), Comment (js ''b'')] (Within [1] 1 1)) \<and>
   wrapSelectionWithTag Em (editorWith [Text (js ''a''), Comment (js ''bcd'')] (Within [1] 1 2))
     = Inl (HierarchyRequestError, editorWith [Text (js ''a''), Comment (js ''bd'')] (Within [1] 1 1)) \<and>
   wrapSelectionWithTag U (editorWith [Element (js ''p'') [] [Comment (js ''bcd'')]] (Within [0, 0] 0 2))
     = Inl (HierarchyRequestError, editorWith [Element (js ''p'') [] [Comment (js ''d'')]] (Within [0, 0] 0 0)) \<and>
   applyFormat (exampleHost\<lparr> execCommand := (\<lambda>command val doc. Inl TypeError) \<rparr>)
       (js ''undo'') None (editorWith [] NoRange)
     = Inl (TypeError, (editorWith [] NoRange)\<lparr> hasFocus := True, editorIsEmpty := False \<rparr>)"
proof -
  let ?l = "(editorWith [Comment (js ''abc'')] (Within [0] 1 2))\<lparr> linkUrl := js ''u'', linkText := js ''t'' \<rparr>"
  let ?l1 = "(editorWith [Comment (js ''ac'')] (Within [0] 1 1))\<lparr> hasFocus := True, editorIsEmpty := False,
               linkUrl := js ''u'', linkText := js ''t'' \<rparr>"
  let ?i = "(editorWith [Comment (js ''abc'')] (Within [0] 1 2))\<lparr> imageUrl := js ''u'' \<rparr>"
  let ?i1 = "(editorWith [Comment (js ''ac'')] (Within [0] 1 1))\<lparr> hasFocus := True, editorIsEmpty := False,
               imageUrl := js ''u'' \<rparr>"
  let ?w = "editorWith [Text (js ''a''), Comment (js ''b'')] (Within [1] 1 1)"
  let ?v = "editorWith [Text (js ''a''), Comment (js ''bcd'')] (Within [1] 1 2)"
  let ?u = "editorWith [Element (js ''p'') [] [Comment (js ''bcd'')]] (Within [0, 0] 0 2)"
  let ?h = "exampleHost\<lparr> execCommand := (\<lambda>command val doc. Inl TypeError) \<rparr>"
  let ?f = "editorWith [] NoRange"
  have l: "mounted ?l \<and> linkUrl ?l \<noteq> [] \<and> linkText ?l \<noteq> [] \<and>
      insertAtSelection exampleHost (linkHTML (processedLinkUrl exampleHost ?l) (linkText ?l))
        (focusEditor exampleHost ?l) = Inl (HierarchyRequestError, ?l1)"
    by (simp add: host_simps focusEditor_def insertAtSelection_def deleteContents_def
        extractContents_def modify_node_def insertNode_def cut_def slice_def textContent_def)
  have i: "mounted ?i \<and> imageUrl ?i \<noteq> [] \<and>
      insertAtSelection exampleHost (imgHTML (processedImageUrl exampleHost ?i) (imageAlt ?i))
        (focusEditor exampleHost ?i) = Inl (HierarchyRequestError, ?i1)"
    by (simp add: host_simps focusEditor_def insertAtSelection_def deleteContents_def
        extractContents_def modify_node_def insertNode_def cut_def slice_def textContent_def)
  have w: "mounted ?w \<and> selection ?w = Within [1] 1 1 \<and>
      parentElementTag (childNodes ?w) [1] \<noteq> Some (tagName Em) \<and>
      insertNode (Element (tagName Em) [] [Text [8203]]) [1] 1 (childNodes ?w) = Inl HierarchyRequestError"
    by (simp add: editorWith_def parentElementTag_def insertNode_def js_def)
  have v: "mounted ?v \<and> selection ?v = Within [1] 1 2 \<and> (1::nat) \<noteq> 2 \<and>
      parentElementTag (childNodes ?v) [1] \<noteq> Some (tagName Em) \<and>
      insertNode (Element (tagName Em) [] (fst (extractContents [1] 1 2 (childNodes ?v)))) [1] 1
        (snd (extractContents [1] 1 2 (childNodes ?v))) = Inl HierarchyRequestError"
    by (simp add: editorWith_def parentElementTag_def insertNode_def extractContents_def
        modify_node_def js_def)
  have v1: "?v\<lparr> childNodes := snd (extractContents [1] 1 2 (childNodes ?v)), selection := Within [1] 1 1 \<rparr>
      = editorWith [Text (js ''a''), Comment (js ''bd'')] (Within [1] 1 1)"
    by (simp add: editorWith_def extractContents_def modify_node_def cut_def js_def textContent_def)
  have u: "mounted ?u \<and> selection ?u = Within [0, 0] 0 2 \<and> (0::nat) < 2 \<and>
      node_at (childNodes ?u) [0, 0] = Some (Comment (js ''bcd'')) \<and>
      parentElementTag (childNodes ?u) [0, 0] \<noteq> Some (tagName U)"
    by (simp add: editorWith_def parentElementTag_def js_def)
  have u1: "?u\<lparr> childNodes := modify_node [0, 0] (\<lambda>_. Comment (cut 0 2 (js ''bcd''))) (childNodes ?u),
               selection := Within [0, 0] 0 0 \<rparr>
      = editorWith [Element (js ''p'') [] [Comment (js ''d'')]] (Within [0, 0] 0 0)"
    by (simp add: editorWith_def modify_node_def cut_def js_def textContent_def)
  have f: "mounted ?f \<and> \<not> disabled ?f \<and>
      execCommand ?h (js ''undo'') None (childNodes (beforeExecCommand ?h (js ''undo'') ?f),
                               selection (beforeExecCommand ?h (js ''undo'') ?f)) = Inl TypeError"
    by (simp add: host_simps)
  have b: "beforeExecCommand ?h (js ''undo'') ?f = ?f\<lparr> hasFocus := True, editorIsEmpty := False \<rparr>"
    by (simp add: beforeExecCommand_def focusEditor_def host_simps startsWith_def Let_def)
  have pl: "parseHTML exampleHost (linkHTML (processedLinkUrl exampleHost ?l) (linkText ?l)) = [exampleLink]"
    by (simp add: host_simps)
  have pi: "parseHTML exampleHost (imgHTML (processedImageUrl exampleHost ?i) (imageAlt ?i)) = [exampleImage]"
    by (simp add: host_simps)
  have c: "childNodes ?l1 = [Comment (js ''ac'')]" "childNodes ?i1 = [Comment (js ''ac'')]"
    by (simp_all add: editorWith_def)
  from exceptions_caught_or_not [of ?l exampleHost HierarchyRequestError ?l1] l pl c
  have 1: "childNodes (insertLink exampleHost ?l) = [Comment (js ''ac''), exampleLink]" by simp
  from exceptions_caught_or_not [of ?i exampleHost HierarchyRequestError ?i1] i pi c
  have 2: "childNodes (insertImage exampleHost ?i) = [Comment (js ''ac''), exampleImage]" by simp
  from exceptions_caught_or_not [of ?w _ _ _ "[1]" 1 Em] w
  have 3: "wrapSelectionWithTag Em ?w = Inl (HierarchyRequestError, ?w)" by blast
  from exceptions_caught_or_not [of ?v _ HierarchyRequestError _ "[1]" 1 Em 2] v
  have "wrapSelectionWithTag Em ?v = Inl (HierarchyRequestError,
          ?v\<lparr> childNodes := snd (extractContents [1] 1 2 (childNodes ?v)), selection := Within [1] 1 1 \<rparr>)"
    by blast
  then have 4: "wrapSelectionWithTag Em ?v
      = Inl (HierarchyRequestError, editorWith [Text (js ''a''), Comment (js ''bd'')] (Within [1] 1 1))"
    by (simp only: v1)
  from exceptions_caught_or_not [of ?u _ _ _ "[0, 0]" 0 U 2 "js ''bcd''"] u
  have "wrapSelectionWithTag U ?u = Inl (HierarchyRequestError,
          ?u\<lparr> childNodes := modify_node [0, 0] (\<lambda>_. Comment (cut 0 2 (js ''bcd''))) (childNodes ?u),
               selection := Within [0, 0] 0 0 \<rparr>)"
    by blast
  then have 5: "wrapSelectionWithTag U ?u
      = Inl (HierarchyRequestError, editorWith [Element (js ''p'') [] [Comment (js ''d'')]] (Within [0, 0] 0 0))"
    by (simp only: u1)
  from exceptions_caught_or_not [of ?f ?h TypeError _ _ _ _ _ _ "js ''undo''" None] f
  have "applyFormat ?h (js ''undo'') None ?f = Inl (TypeError, beforeExecCommand ?h (js ''undo'') ?f)"
    by blast
  then have 6: "applyFormat ?h (js ''undo'') None ?f
      = Inl (TypeError, ?f\<lparr> hasFocus := True, editorIsEmpty := False \<rparr>)"
    by (simp only: b)
  from 1 2 3 4 5 6 show ?thesis by blast
qed

text \<open>
  C3 as stated fails: \<open>applyFormat\<close> does not look at the selection. With the selection
  outside the editable element and an empty document, \<open>justifyCenter\<close> puts a block into
  the document before \<open>document.execCommand\<close> runs, even in a browser whose \<open>focus()\<close>
  leaves the selection alone and whose \<open>execCommand\<close> does nothing.
\<close>

theorem applyFormat_unchecked_counterexample:
  "selection (editorWith [] Outside) = Outside \<and>
   focus exampleHost Outside = Outside \<and>
   innerHTML (childNodes (editorWith [] Outside)) = [] \<and>
   outcome (applyFormat exampleHost (js ''justifyCenter'') None (editorWith [] Outside))
     = Inr (js ''<div><br></div>'', Within [0] 0 0)"
  by (simp add: applyFormat_def beforeExecCommand_def focusEditor_def outcome_def host_simps
      startsWith_def innerHTML_def trim_def Let_def voidElements_def rawTextElements_def)

text \<open>
  C3, amended. With the selection's common ancestor outside the editable element, the
  toggle-wrap commands, \<open>insertBlockquote\<close> and \<open>insertCodeBlock\<close> return the state as it
  was; link and image insertion, which read the selection after \<open>focus()\<close>, append
  their HTML to the end of the document. \<open>applyFormat\<close> makes no such check: whatever the
  selection, an empty document is given a block, with the range inside it, before a
  \<open>justify...\<close> or a list command runs.
\<close>

theorem selection_checked:
  "(selection st = Outside \<longrightarrow>
      wrapSelectionWithTag tag st = Inr st \<and>
      insertBlockquote e st = Inr st \<and>
      insertCodeBlock e st = Inr st) \<and>
   (mounted st \<and> linkUrl st \<noteq> [] \<and> linkText st \<noteq> [] \<and>
    selection (focusEditor e st) = Outside \<longrightarrow>
      childNodes (insertLink e st) =
        childNodes st @ parseHTML e (linkHTML (processedLinkUrl e st) (linkText st))) \<and>
   (mounted st \<and> imageUrl st \<noteq> [] \<and> selection (focusEditor e st) = Outside \<longrightarrow>
      childNodes (insertImage e st) =
        childNodes st @ parseHTML e (imgHTML (processedImageUrl e st) (imageAlt st))) \<and>
   (startsWith command (js ''justify'') \<and> trim (innerHTML (childNodes st)) = [] \<longrightarrow>
      childNodes (beforeExecCommand e command st) =
        [Element (js ''div'') [] [Element (js ''br'') [] []]] \<and>
      selection (beforeExecCommand e command st) = Within [0] 0 0) \<and>
   ((command = js ''insertOrderedList'' \<or> command = js ''insertUnorderedList'') \<and>
    trim (innerHTML (childNodes st)) = [] \<longrightarrow>
      childNodes (beforeExecCommand e command st) =
        [Element (js ''div'') [] [Text (js ''List item'')]] \<and>
      selection (beforeExecCommand e command st) = Within [0] 0 1)"
proof (intro conjI impI)
  assume "selection st = Outside"
  then show "wrapSelectionWithTag tag st = Inr st" "insertBlockquote e st = Inr st"
    "insertCodeBlock e st = Inr st"
    by (simp_all add: wrapSelectionWithTag_def insertBlockquote_def insertCodeBlock_def)
next
  assume h: "mounted st \<and> linkUrl st \<noteq> [] \<and> linkText st \<noteq> [] \<and>
    selection (focusEditor e st) = Outside"
  have "childNodes (focusEditor e st) = childNodes st" by (simp add: focusEditor_def)
  with h show "childNodes (insertLink e st) =
        childNodes st @ parseHTML e (linkHTML (processedLinkUrl e st) (linkText st))"
    by (simp add: insertLink_def insertOrAppend_def insertAtSelection_def Let_def)
next
  assume h: "mounted st \<and> imageUrl st \<noteq> [] \<and> selection (focusEditor e st) = Outside"
  have "childNodes (focusEditor e st) = childNodes st" by (simp add: focusEditor_def)
  with h show "childNodes (insertImage e st) =
        childNodes st @ parseHTML e (imgHTML (processedImageUrl e st) (imageAlt st))"
    by (simp add: insertImage_def insertOrAppend_def insertAtSelection_def Let_def)
next
  assume h: "startsWith command (js ''justify'') \<and> trim (innerHTML (childNodes st)) = []"
  then show "childNodes (beforeExecCommand e command st) =
        [Element (js ''div'') [] [Element (js ''br'') [] []]]"
    using justify_not_list[of command] by (simp add: beforeExecCommand_def focusEditor_def Let_def)
  from h show "selection (beforeExecCommand e command st) = Within [0] 0 0"
    using justify_not_list[of command] by (simp add: beforeExecCommand_def focusEditor_def Let_def)
next
  assume h: "(command = js ''insertOrderedList'' \<or> command = js ''insertUnorderedList'') \<and>
    trim (innerHTML (childNodes st)) = []"
  then have n: "\<not> startsWith command (js ''justify'')"
    using justify_not_list[of command] by auto
  from h n show "childNodes (beforeExecCommand e command st) =
        [Element (js ''div'') [] [Text (js ''List item'')]]"
    by (simp add: beforeExecCommand_def focusEditor_def Let_def)
  from h n show "selection (beforeExecCommand e command st) = Within [0] 0 1"
    by (simp add: beforeExecCommand_def focusEditor_def Let_def)
qed

text \<open>An instance of C3.\<close>

theorem selection_checked_witness:
  "wrapSelectionWithTag Strong (editorWith [Text (js ''a'')] Outside)
     = Inr (editorWith [Text (js ''a'')] Outside) \<and>
   insertBlockquote exampleHost (editorWith [Text (js ''a'')] Outside)
     = Inr (editorWith [Text (js ''a'')] Outside) \<and>
   insertCodeBlock exampleHost (editorWith [Text (js ''a'')] Outside)
     = Inr (editorWith [Text (js ''a'')] Outside) \<and>
   childNodes (insertLink exampleHost
       ((editorWith [Text (js ''a'')] Outside)\<lparr> linkUrl := js ''u'', linkText := js ''t'' \<rparr>))
     = [Text (js ''a''), exampleLink] \<and>
   childNodes (insertImage exampleHost
       ((editorWith [Text (js ''a'')] Outside)\<lparr> imageUrl := js ''u'' \<rparr>))
     = [Text (js ''a''), exampleImage] \<and>
   childNodes (beforeExecCommand exampleHost (js ''justifyCenter'') (editorWith [] Outside))
     = [Element (js ''div'') [] [Element (js ''br'') [] []]] \<and>
   childNodes (beforeExecCommand exampleHost (js ''insertOrderedList'') (editorWith [] Outside))
     = [Element (js ''div'') [] [Text (js ''List item'')]]"
proof -
  let ?s = "editorWith [Text (js ''a'')] Outside"
  let ?l = "?s\<lparr> linkUrl := js ''u'', linkText := js ''t'' \<rparr>"
  let ?i = "?s\<lparr> imageUrl := js ''u'' \<rparr>"
  let ?e = "editorWith [] Outside"
  have s: "selection ?s = Outside" by (simp add: editorWith_def)
  have l: "mounted ?l \<and> linkUrl ?l \<noteq> [] \<and> linkText ?l \<noteq> [] \<and>
           selection (focusEditor exampleHost ?l) = Outside"
    by (simp add: host_simps focusEditor_def)
  have i: "mounted ?i \<and> imageUrl ?i \<noteq> [] \<and> selection (focusEditor exampleHost ?i) = Outside"
    by (simp add: host_simps focusEditor_def)
  have pl: "parseHTML exampleHost (linkHTML (processedLinkUrl exampleHost ?l) (linkText ?l)) = [exampleLink]"
    by (simp add: host_simps)
  have pi: "parseHTML exampleHost (imgHTML (processedImageUrl exampleHost ?i) (imageAlt ?i)) = [exampleImage]"
    by (simp add: host_simps)
  have c: "childNodes ?l = [Text (js ''a'')]" "childNodes ?i = [Text (js ''a'')]"
    by (simp_all add: editorWith_def)
  have j: "startsWith (js ''justifyCenter'') (js ''justify'') \<and> trim (innerHTML (childNodes ?e)) = []"
    by (simp add: startsWith_def js_def editorWith_def innerHTML_def trim_def)
  have o: "(js ''insertOrderedList'' = js ''insertOrderedList'' \<or>
            js ''insertOrderedList'' = js ''insertUnorderedList'') \<and>
           trim (innerHTML (childNodes ?e)) = []"
    by (simp add: editorWith_def innerHTML_def trim_def)
  from selection_checked [of ?s Strong exampleHost] s
  have 1: "wrapSelectionWithTag Strong ?s = Inr ?s \<and> insertBlockquote exampleHost ?s = Inr ?s \<and>
           insertCodeBlock exampleHost ?s = Inr ?s" by blast
  from selection_checked [of ?l _ exampleHost] l pl c
  have 2: "childNodes (insertLink exampleHost ?l) = [Text (js ''a''), exampleLink]" by simp
  from selection_checked [of ?i _ exampleHost] i pi c
  have 3: "childNodes (insertImage exampleHost ?i) = [Text (js ''a''), exampleImage]" by simp
  from selection_checked [of ?e _ exampleHost "js ''justifyCenter''"] j
  have 4: "childNodes (beforeExecCommand exampleHost (js ''justifyCenter'') ?e)
     = [Element (js ''div'') [] [Element (js ''br'') [] []]]" by blast
  from selection_checked [of ?e _ exampleHost "js ''insertOrderedList''"] o
  have 5: "childNodes (beforeExecCommand exampleHost (js ''insertOrderedList'') ?e)
     = [Element (js ''div'') [] [Text (js ''List item'')]]" by blast
  from 1 2 3 4 5 show ?thesis by blast
qed

text \<open>
  C4 as stated fails for a span that carries attributes: the first application removes
  the span, the second wraps the same text in a new element without attributes. It also
  fails for a span directly inside a span of the same tag: the second application
  finds the outer span as the parent and removes that one too.
\<close>

theorem toggle_twice_counterexample:
  "outcome (thenToggle Strong (reselect (Within [0] 0 2)
      (wrapSelectionWithTag Strong
         (editorWith [Element (js ''strong'') [(js ''style'', js ''color: red;'')] [Text (js ''hi'')]]
            (Within [0, 0] 0 2)))))
     = Inr (js ''<strong>hi</strong>'', Within [1] 0 1) \<and>
   innerHTML (childNodes
      (editorWith [Element (js ''strong'') [(js ''style'', js ''color: red;'')] [Text (js ''hi'')]]
         (Within [0, 0] 0 2)))
     = js ''<strong style=\"color: red;\">hi</strong>'' \<and>
   outcome (thenToggle Strong (reselect (Within [0, 0] 0 1)
      (wrapSelectionWithTag Strong
         (editorWith [Element (js ''strong'') [] [Element (js ''strong'') [] [Text (js ''x'')]]]
            (Within [0, 0, 0] 0 1)))))
     = Inr (js ''x'', Within [] 1 1) \<and>
   innerHTML (childNodes
      (editorWith [Element (js ''strong'') [] [Element (js ''strong'') [] [Text (js ''x'')]]]
         (Within [0, 0, 0] 0 1)))
     = js ''<strong><strong>x</strong></strong>''"
  by (simp add: toggle_simps)

text \<open>
  C4, amended. Let the document hold, at path \<open>q\<close>, an element of the command's tag
  without attributes whose only child is a non-empty text node, below a parent of
  another tag, and let the selection cover that text. The first application removes the
  wrapper. Applied again with the same text selected (it now stands at \<open>q\<close>), the command
  wraps it again, and the serialised document is the one from before the first
  application.
\<close>

theorem toggle_twice:
  assumes m: "mounted st"
    and span: "node_at (childNodes st) q = Some (Element (tagName tag) [] [Text s])"
    and s: "s \<noteq> []"
    and par: "parentElementTag (childNodes st) q \<noteq> Some (tagName tag)"
    and sel: "selection st = Within (q @ [0]) 0 (length s)"
  shows "\<exists>st1 st2.
           wrapSelectionWithTag tag st = Inr st1 \<and>
           childNodes st1 =
             modify_children (butlast q)
               (\<lambda>ds. take (last q) ds @ [Text s] @ drop (Suc (last q)) ds) (childNodes st) \<and>
           wrapSelectionWithTag tag (st1\<lparr> selection := Within q 0 (length s) \<rparr>) = Inr st2 \<and>
           innerHTML (childNodes st2) = innerHTML (childNodes st)"
proof -
  let ?cs = "childNodes st" and ?g = "butlast q" and ?i = "last q"
  let ?span = "Element (tagName tag) [] [Text s]"
  let ?F1 = "\<lambda>ds. take ?i ds @ [Text s] @ drop (Suc ?i) ds"
  let ?F2 = "\<lambda>ds. if ?i < length ds then ds[?i := Text (cut 0 (length s) s)] else ds"
  let ?F3 = "\<lambda>ds. take ?i ds @ [Text (take 0 (cut 0 (length s) s)), ?span,
                              Text (drop 0 (cut 0 (length s) s))] @ drop (Suc ?i) ds"
  have qne: "q \<noteq> []" using span by (cases q) auto
  then have q: "q = ?g @ [?i]" by simp
  from span obtain ds where ds: "children_at ?cs ?g = Some ds" "?i < length ds" "ds ! ?i = ?span"
    using node_at_snoc[of ?cs ?g ?i] q by auto
  \<comment> \<open>first application: the wrapper is removed\<close>
  let ?cs1 = "modify_children ?g ?F1 ?cs"
  let ?u = "unwrapElement q st"
  have pt: "parentElementTag ?cs (q @ [0]) = Some (tagName tag)"
    using span by (rule parentElementTag_snoc)
  have u: "?u = st\<lparr> childNodes := ?cs1, selection := Within ?g (?i + 1) (?i + 1) \<rparr>"
    using span by (simp add: unwrapElement_def)
  have w1: "wrapSelectionWithTag tag st = Inr (handleChange ?u)"
    using m sel pt by (simp add: wrapSelectionWithTag_def)
  let ?st1 = "handleChange ?u"
  have c1: "childNodes ?st1 = ?cs1" using u by simp
  \<comment> \<open>second application, on the text node, which now stands at \<open>q\<close>\<close>
  let ?st1' = "?st1\<lparr> selection := Within q 0 (length s) \<rparr>"
  have ds1: "children_at ?cs1 ?g = Some (?F1 ds)" using ds(1) by (rule children_at_modify)
  have len1: "?i < length (?F1 ds)" using ds(2) by simp
  have nth1: "?F1 ds ! ?i = Text s" using ds(2) by (simp add: nth_append)
  have n1: "node_at ?cs1 q = Some (Text s)"
    using node_at_snoc[of ?cs1 ?g ?i] q ds1 len1 nth1 by auto
  have p1: "parentElementTag ?cs1 q \<noteq> Some (tagName tag)"
    using parentElementTag_modify[OF ds(1)] par by simp
  let ?cs2 = "modify_children ?g ?F2 ?cs1"
  have ex: "extractContents q 0 (length s) ?cs1 = ([Text s], ?cs2)"
    using s qne n1 by (simp add: extractContents_def slice_def modify_node_def)
  have ds2: "children_at ?cs2 ?g = Some (?F2 (?F1 ds))" using ds1 by (rule children_at_modify)
  have n2: "node_at ?cs2 q = Some (Text (cut 0 (length s) s))"
    using node_at_snoc[of ?cs2 ?g ?i] q ds2 len1 by auto
  let ?cs3 = "modify_children ?g ?F3 ?cs2"
  have ins: "insertNode ?span q 0 ?cs2 = Inr (?cs3, ?g @ [Suc ?i])"
    using qne n2 by (simp add: insertNode_def)
  have m1: "mounted ?st1'" using m u by simp
  have w2: "wrapSelectionWithTag tag ?st1' =
              Inr (handleChange (?st1'\<lparr> childNodes := ?cs3, selection := Within (?g @ [Suc ?i]) 0 1 \<rparr>))"
    using m1 p1 s c1 ex ins by (simp add: wrapSelectionWithTag_def)
  let ?st2 = "handleChange (?st1'\<lparr> childNodes := ?cs3, selection := Within (?g @ [Suc ?i]) 0 1 \<rparr>)"
  \<comment> \<open>the document after both\<close>
  have c3: "?cs3 = modify_children ?g (?F3 \<circ> ?F2 \<circ> ?F1) ?cs"
    by (simp add: modify_children_twice comp_assoc)
  have split: "ds = take ?i ds @ [?span] @ drop (Suc ?i) ds"
    using ds(2,3) by (metis append_Cons append_Nil id_take_nth_drop)
  have F: "(?F3 \<circ> ?F2 \<circ> ?F1) ds = take ?i ds @ [Text [], ?span, Text []] @ drop (Suc ?i) ds"
    using ds(2) by (simp add: cut_def min_def)
  have "concat (map (serialize raw) ((?F3 \<circ> ?F2 \<circ> ?F1) ds)) = concat (map (serialize raw) ds)" for raw
  proof -
    have "concat (map (serialize raw) (take ?i ds @ [Text [], ?span, Text []] @ drop (Suc ?i) ds))
        = concat (map (serialize raw) (take ?i ds @ [?span] @ drop (Suc ?i) ds))"
      by simp
    then show ?thesis using F split by metis
  qed
  then have "concat (map (serialize False) ?cs3) = concat (map (serialize False) ?cs)"
    unfolding c3 using ds(1) by (rule serialize_modify_children[rotated])
  then have h: "innerHTML (childNodes ?st2) = innerHTML ?cs"
    by (simp add: innerHTML_def)
  from w1 c1 w2 h show ?thesis by blast
qed

text \<open>An instance of C4.\<close>

theorem toggle_twice_witness:
  "\<exists>st1 st2.
     wrapSelectionWithTag Em
       (editorWith [Element (js ''p'') [] [Text (js ''a''), Element (js ''em'') [] [Text (js ''hi'')]]]
          (Within [0, 1, 0] 0 2)) = Inr st1 \<and>
     childNodes st1 = [Element (js ''p'') [] [Text (js ''a''), Text (js ''hi'')]] \<and>
     wrapSelectionWithTag Em (st1\<lparr> selection := Within [0, 1] 0 2 \<rparr>) = Inr st2 \<and>
     innerHTML (childNodes st2) = js ''<p>a<em>hi</em></p>''"
proof -
  let ?st = "editorWith [Element (js ''p'') [] [Text (js ''a''), Element (js ''em'') [] [Text (js ''hi'')]]]
          (Within [0, 1, 0] 0 2)"
  have h: "mounted ?st"
    "node_at (childNodes ?st) [0, 1] = Some (Element (tagName Em) [] [Text (js ''hi'')])"
    "js ''hi'' \<noteq> []"
    "parentElementTag (childNodes ?st) [0, 1] \<noteq> Some (tagName Em)"
    "selection ?st = Within ([0, 1] @ [0]) 0 (length (js ''hi''))"
    by (simp_all add: editorWith_def parentElementTag_def js_def)
  have c: "modify_children (butlast [0, 1])
             (\<lambda>ds. take (last [0, 1]) ds @ [Text (js ''hi'')] @ drop (Suc (last [0, 1])) ds)
             (childNodes ?st) = [Element (js ''p'') [] [Text (js ''a''), Text (js ''hi'')]]"
    by (simp add: editorWith_def)
  have i: "innerHTML (childNodes ?st) = js ''<p>a<em>hi</em></p>''"
    by (simp add: toggle_simps)
  have l: "length (js ''hi'') = 2" by (simp add: js_def)
  show ?thesis
    using toggle_twice [OF h] unfolding c i l by simp
qed

text \<open>
  Removing the wrapper moves the text node, which collapses the range behind it. Applied
  again without a new selection, the command therefore inserts an empty wrapper instead
  of wrapping the text.
\<close>

lemma toggle_succession_collapsed:
  "outcome (wrapSelectionWithTag Strong
      (editorWith [Element (js ''strong'') [] [Text (js ''hi'')]] (Within [0, 0] 0 2)))
     = Inr (js ''hi'', Within [] 1 1) \<and>
   outcome (thenToggle Strong (wrapSelectionWithTag Strong
      (editorWith [Element (js ''strong'') [] [Text (js ''hi'')]] (Within [0, 0] 0 2))))
     = Inr (js ''hi<strong>'' @ [8203] @ js ''</strong>'', Within [1] 0 0)"
  by (simp add: toggle_simps)

text \<open>
  When the range is the content of the span as a range of the element (not of its text
  node), the parent of the common ancestor is the span's parent: the first application
  wraps the content once more inside the span and selects it, and the second, on the
  selection as the first left it, removes the outer span. The document is then the one
  from before, node for node, if the span carried no attributes.
\<close>

lemma toggle_twice_element_range:
  assumes m: "mounted st"
    and span: "node_at (childNodes st) q = Some (Element (tagName tag) [] kids)"
    and k: "kids \<noteq> []"
    and par: "parentElementTag (childNodes st) q \<noteq> Some (tagName tag)"
    and sel: "selection st = Within q 0 (length kids)"
  shows "\<exists>st1 st2.
           wrapSelectionWithTag tag st = Inr st1 \<and>
           childNodes st1 =
             modify_children q (\<lambda>ds. [Element (tagName tag) [] kids]) (childNodes st) \<and>
           selection st1 = Within (q @ [0]) 0 (length kids) \<and>
           wrapSelectionWithTag tag st1 = Inr st2 \<and>
           childNodes st2 = childNodes st"
proof -
  let ?cs = "childNodes st" and ?g = "butlast q" and ?i = "last q"
  let ?span = "Element (tagName tag) [] kids"
  have qne: "q \<noteq> []" using span by (cases q) auto
  then have q: "q = ?g @ [?i]" by simp
  from span obtain ds where ds: "children_at ?cs ?g = Some ds" "?i < length ds" "ds ! ?i = ?span"
    using node_at_snoc[of ?cs ?g ?i] q by auto
  have kq: "children_at ?cs q = Some kids"
    using node_at_Element[OF qne, of ?cs kids] span by blast
  \<comment> \<open>first application: the content is wrapped inside the span\<close>
  let ?cs1 = "modify_children q (cut 0 (length kids)) ?cs"
  have ex: "extractContents q 0 (length kids) ?cs = (kids, ?cs1)"
    using k qne span by (simp add: extractContents_def slice_def)
  have n1: "node_at ?cs1 q = Some (Element (tagName tag) [] (cut 0 (length kids) kids))"
    using node_at_parent_tag_modify[OF qne span] .
  let ?cs2 = "modify_children q (\<lambda>ds. take 0 ds @ ?span # drop 0 ds) ?cs1"
  have ins: "insertNode ?span q 0 ?cs1 = Inr (?cs2, q @ [0])"
    using qne n1 by (simp add: insertNode_def cut_def)
  have w1: "wrapSelectionWithTag tag st =
      Inr (handleChange (st\<lparr> childNodes := ?cs2, selection := Within (q @ [0]) 0 (length kids) \<rparr>))"
    using m sel par k ex ins by (simp add: wrapSelectionWithTag_def)
  let ?st1 = "handleChange (st\<lparr> childNodes := ?cs2, selection := Within (q @ [0]) 0 (length kids) \<rparr>)"
  have c2: "?cs2 = modify_children q (\<lambda>ds. [?span]) ?cs"
  proof -
    have "?cs2 = modify_children q ((\<lambda>ds. take 0 ds @ ?span # drop 0 ds) \<circ> cut 0 (length kids)) ?cs"
      by (simp add: modify_children_twice)
    also have "\<dots> = modify_children q (\<lambda>ds. [?span]) ?cs"
      using kq by (rule modify_children_cong) (simp add: cut_def)
    finally show ?thesis .
  qed
  \<comment> \<open>second application: the outer span is removed\<close>
  have n2: "node_at ?cs2 q = Some (Element (tagName tag) [] [?span])"
    unfolding c2 using node_at_parent_tag_modify[OF qne span] .
  have pt: "parentElementTag ?cs2 (q @ [0]) = Some (tagName tag)"
    using n2 by (rule parentElementTag_snoc)
  let ?cs3 = "modify_children ?g (\<lambda>ds. take ?i ds @ [?span] @ drop (Suc ?i) ds) ?cs2"
  have w2: "wrapSelectionWithTag tag ?st1 =
      Inr (handleChange (?st1\<lparr> childNodes := ?cs3, selection := Within ?g (?i + 1) (?i + 1) \<rparr>))"
    using m pt n2 by (simp add: wrapSelectionWithTag_def unwrapElement_def)
  have "?cs3 = ?cs"
  proof -
    let ?H = "\<lambda>ds. if ?i < length ds
                   then (case ds ! ?i of Element t as es \<Rightarrow> ds[?i := Element t as [?span]] | _ \<Rightarrow> ds)
                   else ds"
    have "?cs2 = modify_children ?g ?H ?cs"
      unfolding c2 using modify_children_snoc[of ?g ?i "\<lambda>ds. [?span]" ?cs] q by simp
    then have "?cs3 = modify_children ?g ((\<lambda>ds. take ?i ds @ [?span] @ drop (Suc ?i) ds) \<circ> ?H) ?cs"
      by (simp add: modify_children_twice)
    also have "\<dots> = modify_children ?g (\<lambda>ds. ds) ?cs"
    proof (rule modify_children_cong[OF ds(1)])
      have "take ?i ds @ [?span] @ drop (Suc ?i) ds = ds"
        using ds(2,3) by (metis append_Cons append_Nil id_take_nth_drop)
      then show "((\<lambda>ds. take ?i ds @ [?span] @ drop (Suc ?i) ds) \<circ> ?H) ds = ds"
        using ds(2,3) by simp
    qed
    finally show ?thesis by (simp add: modify_children_id)
  qed
  then have c3: "childNodes (handleChange (?st1\<lparr> childNodes := ?cs3,
      selection := Within ?g (?i + 1) (?i + 1) \<rparr>)) = ?cs"
    by simp
  have c1: "childNodes ?st1 = modify_children q (\<lambda>ds. [?span]) ?cs" using c2 by simp
  have s1: "selection ?st1 = Within (q @ [0]) 0 (length kids)" by simp
  from w1 c1 s1 w2 c3 show ?thesis by blast
qed

text \<open>
  What \<open>handleChange\<close> does, on every input event and at the end of every command: it
  sets the direction to right-to-left and the alignment to right if the text content
  holds a code unit in U+0600 to U+06FF or U+0750 to U+077F, and to left-to-right and
  left otherwise; so also for a text of Latin letters only (code units below U+0250).
\<close>

lemma handleChange_direction:
  assumes "mounted st"
  shows "((\<exists>c \<in> set (textContent (childNodes st)). arabicCodeUnit c) \<longrightarrow>
            style_direction (handleChange st) = RTL \<and>
            style_textAlign (handleChange st) = Some AlignRight \<and>
            textDirection (handleChange st) = RTL) \<and>
         (\<not> (\<exists>c \<in> set (textContent (childNodes st)). arabicCodeUnit c) \<longrightarrow>
            style_direction (handleChange st) = LTR \<and>
            style_textAlign (handleChange st) = Some AlignLeft \<and>
            textDirection (handleChange st) = LTR) \<and>
         ((\<forall>c \<in> set (textContent (childNodes st)). c < 592) \<longrightarrow>
            style_direction (handleChange st) = LTR \<and>
            style_textAlign (handleChange st) = Some AlignLeft \<and>
            textDirection (handleChange st) = LTR)"
proof -
  have latin: "\<not> (\<exists>c \<in> set s. arabicCodeUnit c)" if "\<forall>c \<in> set s. c < 592" for s
    using that by (auto simp: arabicCodeUnit_def)
  show ?thesis
    using assms latin[of "textContent (childNodes st)"]
    by (auto simp: handleChange_def Let_def arabicRegex_test_iff)
qed

lemma handleChange_direction_example:
  "style_direction (handleChange (editorWith [Text (js ''abc'' @ [1605])] NoRange)) = RTL \<and>
   style_textAlign (handleChange (editorWith [Text (js ''abc'' @ [1605])] NoRange)) = Some AlignRight \<and>
   style_direction (handleChange (editorWith [Element (js ''p'') [] [Text (js ''hello'')]] NoRange)) = LTR \<and>
   style_textAlign (handleChange (editorWith [Element (js ''p'') [] [Text (js ''hello'')]] NoRange)) = Some AlignLeft"
proof -
  have m: "mounted (editorWith cs sel)" for cs sel by (simp add: editorWith_def)
  have a: "\<exists>c \<in> set (textContent (childNodes (editorWith [Text (js ''abc'' @ [1605])] NoRange))). arabicCodeUnit c"
    by (simp add: editorWith_def textContent_def arabicCodeUnit_def js_def)
  have l: "\<forall>c \<in> set (textContent (childNodes (editorWith [Element (js ''p'') [] [Text (js ''hello'')]] NoRange))). c < 592"
    by (simp add: editorWith_def textContent_def js_def)
  show ?thesis
    using handleChange_direction [OF m, of "[Text (js ''abc'' @ [1605])]" NoRange]
      handleChange_direction [OF m, of "[Element (js ''p'') [] [Text (js ''hello'')]]" NoRange] a l
    by blast
qed

text \<open>
  The effect on \<open>value\<close> changes the content too, and sets neither direction nor
  alignment, whatever the new content is.
\<close>

lemma valueEffect_direction:
  "style_direction (valueEffect e val st) = style_direction st \<and>
   style_textAlign (valueEffect e val st) = style_textAlign st \<and>
   textDirection (valueEffect e val st) = textDirection st"
  by (simp add: valueEffect_def)

text \<open>
  C9 does not hold of the code. A fresh editor (left-to-right, no alignment set) is given
  the value \<open><p>w</p>\<close>, where \<open>w\<close> is a word of five Arabic letters (U+0645, U+0631,
  U+062D, U+0628, U+0627). The effect on \<open>value\<close> puts the paragraph into the document,
  the text content then matches the pattern, and direction and alignment stay as they
  were: left-to-right, not right-to-left and right. \<open>handleChange\<close> on the same
  document sets them to right-to-left and right.
\<close>

theorem value_prop_direction_not_detected:
  "arabicValue \<noteq> innerHTML (childNodes (editorWith [] NoRange)) \<and>
   childNodes (valueEffect arabicHost arabicValue (editorWith [] NoRange))
     = [Element (js ''p'') [] [Text arabicWord]] \<and>
   innerHTML (childNodes (valueEffect arabicHost arabicValue (editorWith [] NoRange))) = arabicValue \<and>
   arabicRegex_test (textContent (childNodes (valueEffect arabicHost arabicValue (editorWith [] NoRange)))) \<and>
   style_direction (valueEffect arabicHost arabicValue (editorWith [] NoRange)) = LTR \<and>
   style_textAlign (valueEffect arabicHost arabicValue (editorWith [] NoRange)) = None \<and>
   textDirection (valueEffect arabicHost arabicValue (editorWith [] NoRange)) = LTR \<and>
   style_direction (handleChange (valueEffect arabicHost arabicValue (editorWith [] NoRange))) = RTL \<and>
   style_textAlign (handleChange (valueEffect arabicHost arabicValue (editorWith [] NoRange)))
     = Some AlignRight"
  by (simp add: valueEffect_def arabicHost_def arabicValue_def arabicWord_def exampleHost_def
      editorWith_def innerHTML_def textContent_def arabicRegex_test_def handleChange_def
      escapeText_def voidElements_def rawTextElements_def js_def Let_def)

end
